theory Spec2Isabelle
  imports Complex_Main "HOL-Library.Char_ord" "HOL-Library.List_Lexorder"
begin

section \<open>Python values, text and floats\<close>

text \<open>
  The engine (\<^verbatim>\<open>apps/charts/constants.py\<close>, \<^verbatim>\<open>apps/charts/taam_service.py\<close>,
  \<^verbatim>\<open>apps/charts/services.py\<close>, \<^verbatim>\<open>apps/ingest/services.py\<close>) works on rows of a data
  frame: dictionaries from a column key to a raw cell.

  A cell is \<^verbatim>\<open>None\<close>, a number (\<^verbatim>\<open>bool\<close>, \<^verbatim>\<open>int\<close> or \<^verbatim>\<open>float\<close>: all three pass
  \<^verbatim>\<open>isinstance(x, (int, float))\<close>) or a string. The code observes a number in three ways
  only: \<^verbatim>\<open>float(x)\<close>, \<^verbatim>\<open>str(x)\<close> and its truth value. A numeric cell is therefore
  modelled by the pair of \<^verbatim>\<open>float(x)\<close> and \<^verbatim>\<open>str(x)\<close>; it is truthy when the value is
  not zero.

  Text is ASCII: a \<^typ>\<open>char\<close> outside the ASCII range is neither a letter, nor
  white space, nor a word character, and has no other case.
\<close>

datatype pyval = PyNone | PyNum real string | PyStr string

datatype py_error = KeyError | IndexError

definition ord :: "char \<Rightarrow> nat" where
  "ord c = of_char c"

definition isspace :: "char \<Rightarrow> bool" where
  "isspace c = ((9 \<le> ord c \<and> ord c \<le> 13) \<or> (28 \<le> ord c \<and> ord c \<le> 32))"

definition isupper :: "char \<Rightarrow> bool" where
  "isupper c = (65 \<le> ord c \<and> ord c \<le> 90)"

definition islower :: "char \<Rightarrow> bool" where
  "islower c = (97 \<le> ord c \<and> ord c \<le> 122)"

definition isalpha :: "char \<Rightarrow> bool" where
  "isalpha c = (isupper c \<or> islower c)"

definition isdigit :: "char \<Rightarrow> bool" where
  "isdigit c = (48 \<le> ord c \<and> ord c \<le> 57)"

definition lower_char :: "char \<Rightarrow> char" where
  "lower_char c = (if isupper c then char_of (ord c + 32) else c)"

definition upper_char :: "char \<Rightarrow> char" where
  "upper_char c = (if islower c then char_of (ord c - 32) else c)"

definition lower :: "string \<Rightarrow> string" where
  "lower s = map lower_char s"

definition upper :: "string \<Rightarrow> string" where
  "upper s = map upper_char s"

definition strip :: "string \<Rightarrow> string" where
  "strip s = rev (dropWhile isspace (rev (dropWhile isspace s)))"

text \<open>\<^verbatim>\<open>s.startswith(p)\<close> and the substring test \<^verbatim>\<open>sub in s\<close>.\<close>

fun startswith :: "string \<Rightarrow> string \<Rightarrow> bool" where
  "startswith s [] = True"
| "startswith [] (p # ps) = False"
| "startswith (c # cs) (p # ps) = (c = p \<and> startswith cs ps)"

fun py_in :: "string \<Rightarrow> string \<Rightarrow> bool" where
  "py_in sub [] = (sub = [])"
| "py_in sub (c # cs) = (startswith (c # cs) sub \<or> py_in sub cs)"

text \<open>
  \<^verbatim>\<open>normalize_text\<close>: \<^verbatim>\<open>""\<close> for \<^verbatim>\<open>None\<close>, otherwise \<^verbatim>\<open>str(text).strip().lower()\<close>.
\<close>

definition normalize_text :: "pyval \<Rightarrow> string" where
  "normalize_text text =
     (case text of
        PyNone \<Rightarrow> []
      | PyNum v s \<Rightarrow> lower (strip s)
      | PyStr s \<Rightarrow> lower (strip s))"

subsection \<open>Floats\<close>

text \<open>
  A Python \<^verbatim>\<open>float\<close> is an IEEE 754 binary64 number, and every arithmetic operation
  returns the exact result rounded to the nearest such number, ties to the even
  significand. \<open>fl\<close> is that rounding (53 significant bits); an operation \<^verbatim>\<open>a op b\<close> of
  the code is written \<open>fl (a op b)\<close>. Overflow, subnormal numbers and NaN are not
  modelled: the magnitudes the engine computes with lie between \<open>1/4\<close> and a few hundred.
  The value of a numeric cell is the float \<^verbatim>\<open>float(x)\<close>; for an integer cell of a data
  frame (64 bits) that conversion cannot overflow.

  \<open>py_round\<close> is the built-in \<^verbatim>\<open>round(x)\<close> of Python 3 on a float: the nearest integer,
  an exact half going to the even neighbour. \<open>py_round_n x n\<close> is \<^verbatim>\<open>round(x, n)\<close>: the
  float nearest to the decimal with \<open>n\<close> places nearest to \<open>x\<close>.
\<close>

definition py_round :: "real \<Rightarrow> int" where
  "py_round x =
     (let f = \<lfloor>x\<rfloor>; d = x - of_int f in
      if d < 1 / 2 then f
      else if 1 / 2 < d then f + 1
      else if even f then f else f + 1)"

definition fl :: "real \<Rightarrow> real" where
  "fl x =
     (if x = 0 then 0
      else (let e = \<lfloor>log 2 \<bar>x\<bar>\<rfloor> in
            of_int (py_round (x * 2 powi (52 - e))) * 2 powi (e - 52)))"

definition py_round_n :: "real \<Rightarrow> nat \<Rightarrow> real" where
  "py_round_n x n = fl (of_int (py_round (x * 10 ^ n)) / 10 ^ n)"

text \<open>
  \<^verbatim>\<open>float(text)\<close> on a string: optional sign, digits with an optional fraction, optional
  exponent; digits may be grouped by single underscores. \<open>None\<close> is \<^verbatim>\<open>ValueError\<close>.
  The literals \<^verbatim>\<open>inf\<close>, \<^verbatim>\<open>infinity\<close> and \<^verbatim>\<open>nan\<close> give \<open>None\<close> too: the only use of
  the result is the test \<^verbatim>\<open>1.0 <= val <= 5.0\<close>, false for each of them, and both
  outcomes return \<^verbatim>\<open>None\<close> from the caller.
\<close>

definition digit_value :: "char \<Rightarrow> nat" where
  "digit_value c = ord c - 48"

fun digits_rest :: "string \<Rightarrow> nat \<Rightarrow> nat \<Rightarrow> (nat \<times> nat) option" where
  "digits_rest [] v n = Some (v, n)"
| "digits_rest [c] v n =
     (if isdigit c then Some (10 * v + digit_value c, Suc n) else None)"
| "digits_rest (c # d # ds) v n =
     (if isdigit c then digits_rest (d # ds) (10 * v + digit_value c) (Suc n)
      else if c = CHR ''_'' \<and> isdigit d then digits_rest ds (10 * v + digit_value d) (Suc n)
      else None)"

text \<open>The value of a digit part and the number of its digits.\<close>

definition digitpart :: "string \<Rightarrow> (nat \<times> nat) option" where
  "digitpart s =
     (case s of
        [] \<Rightarrow> None
      | c # cs \<Rightarrow> if isdigit c then digits_rest cs (digit_value c) 1 else None)"

definition split_sign :: "string \<Rightarrow> bool \<times> string" where
  "split_sign s =
     (case s of
        [] \<Rightarrow> (False, [])
      | c # cs \<Rightarrow> if c = CHR ''-'' then (True, cs)
                else if c = CHR ''+'' then (False, cs) else (False, s))"

definition parse_exponent :: "string \<Rightarrow> int option" where
  "parse_exponent e =
     (case e of
        [] \<Rightarrow> Some 0
      | c # e1 \<Rightarrow>
          (let (neg, e2) = split_sign e1 in
           case digitpart e2 of
             None \<Rightarrow> None
           | Some (v, n) \<Rightarrow> Some (if neg then - int v else int v)))"

definition parse_mantissa :: "string \<Rightarrow> real option" where
  "parse_mantissa m =
     (let ip = takeWhile (\<lambda>c. c \<noteq> CHR ''.'') m;
          rest = dropWhile (\<lambda>c. c \<noteq> CHR ''.'') m in
      case rest of
        [] \<Rightarrow> map_option (\<lambda>(v, n). real v) (digitpart ip)
      | dot # fp \<Rightarrow>
          if ip = [] then map_option (\<lambda>(f, n). real f / 10 ^ n) (digitpart fp)
          else (case digitpart ip of
                  None \<Rightarrow> None
                | Some (i, k) \<Rightarrow>
                    if fp = [] then Some (real i)
                    else map_option (\<lambda>(f, n). real i + real f / 10 ^ n) (digitpart fp)))"

definition py_float :: "string \<Rightarrow> real option" where
  "py_float text =
     (let (neg, s) = split_sign (strip text);
          is_e = (\<lambda>c. c = CHR ''e'' \<or> c = CHR ''E'');
          m = takeWhile (\<lambda>c. \<not> is_e c) s;
          e = dropWhile (\<lambda>c. \<not> is_e c) s in
      case parse_mantissa m of
        None \<Rightarrow> None
      | Some mant \<Rightarrow>
          (case parse_exponent e of
             None \<Rightarrow> None
           | Some ex \<Rightarrow> Some (fl ((if neg then - mant else mant) * 10 powi ex))))"

section \<open>Constants\<close>

text \<open>
  Dictionaries whose iteration order the code relies on are association lists in the
  order of the source; no key occurs twice in them.
\<close>

definition IMPORTANCE_SCALE :: "(string \<times> nat) list" where
  "IMPORTANCE_SCALE =
     [(''not at all'', 1), (''not at all important'', 1),
      (''slightly'', 2), (''slightly important'', 2),
      (''moderately'', 3), (''moderately important'', 3), (''neutral'', 3), (''very much'', 4),
      (''very'', 4), (''very important'', 4),
      (''completely'', 5), (''extremely important'', 5),
      (''1'', 1), (''2'', 2), (''3'', 3), (''4'', 4), (''5'', 5)]"

definition FREQUENCY_SCALE :: "(string \<times> nat) list" where
  "FREQUENCY_SCALE =
     [(''never'', 1), (''rarely'', 2), (''sometimes'', 3), (''often'', 4), (''always'', 5),
      (''1'', 1), (''2'', 2), (''3'', 3), (''4'', 4), (''5'', 5)]"

definition PAY_MORE_SCALE :: "(string \<times> nat) list" where
  "PAY_MORE_SCALE =
     [(''no, never'', 1),
      (''no, not often'', 2),
      (''neutral'', 3),
      (''yes, sometimes'', 4),
      (''yes, always'', 5),
      (''never'', 1), (''rarely'', 2), (''sometimes'', 4), (''often'', 4), (''always'', 5),
      (''1'', 1), (''2'', 2), (''3'', 3), (''4'', 4), (''5'', 5)]"

definition LAUNCH_BEHAVIOR_SCALE :: "(string \<times> nat) list" where
  "LAUNCH_BEHAVIOR_SCALE =
     [(''i rarely pay attention to new launches.'', 1),
      (''rarely'', 1),
      (''i only buy if the product is aligned with my preferences and budget.'', 2),
      (''only if aligned'', 2),
      (''i wait for reviews before making a purchase.'', 3),
      (''wait for reviews'', 3),
      (''i get excited and want to try them immediately.'', 5),
      (''try immediately'', 5),
      (''1'', 1), (''2'', 2), (''3'', 3), (''5'', 5)]"

definition INFLUENCER_SCALE :: "(string \<times> nat) list" where
  "INFLUENCER_SCALE =
     [(''not likely'', 1), (''slightly likely'', 2), (''moderately likely'', 3),
      (''very likely'', 4), (''extremely likely'', 5),
      (''1'', 1), (''2'', 2), (''3'', 3), (''4'', 4), (''5'', 5)]"

definition INCOME_REACTION_SCALE :: "(string \<times> nat) list" where
  "INCOME_REACTION_SCALE =
     [(''save most'', 1), (''save'', 1),
      (''slight increase'', 3),
      (''spend more luxury'', 5), (''spend luxury'', 5),
      (''1'', 1), (''3'', 3), (''5'', 5)]"

definition MIN_TAAM_QUESTIONS :: nat where
  "MIN_TAAM_QUESTIONS = 8"

definition CORE_TAAM_QUESTIONS :: "string list" where
  "CORE_TAAM_QUESTIONS =
     [''q8'', ''q9'', ''q10'', ''q11'', ''q12'', ''q13'', ''q14'', ''q16'', ''q18'', ''q19'']"

definition AXES :: "string list" where
  "AXES = [''Price'', ''Quality'', ''Ingredients'', ''Social Pressure'', ''Brand Image'',
           ''Convenience'']"

record prototype =
  name :: string
  vector :: "real list"

text \<open>Every component of a prototype vector is a multiple of \<open>1/4\<close>, exact in binary.\<close>

definition PERSONA_PROTOTYPES :: "(string \<times> prototype) list" where
  "PERSONA_PROTOTYPES =
     [(''A'', \<lparr>name = ''Seamless Shoppers'', vector = [5/2, 13/4, 13/4, 5/2, 5/2, 5]\<rparr>),
      (''B'', \<lparr>name = ''Value Hunters'', vector = [5, 3/2, 2, 1, 5/2, 5/2]\<rparr>),
      (''C'', \<lparr>name = ''Aspirational Splurgers'', vector = [5, 5/2, 5/2, 5, 5, 1]\<rparr>),
      (''D'', \<lparr>name = ''Obligati'', vector = [4, 7/2, 5/2, 5, 7/2, 5/2]\<rparr>),
      (''E'', \<lparr>name = ''Luxe Enthusiasts'', vector = [5/2, 5, 5, 1, 4, 2]\<rparr>),
      (''F'', \<lparr>name = ''Dependables'', vector = [4, 5/2, 1, 4, 5, 5/2]\<rparr>),
      (''G'', \<lparr>name = ''Sprezzatura'', vector = [5, 3, 2, 13/4, 5/2, 5/2]\<rparr>),
      (''H'', \<lparr>name = ''Ascent Beautifiers'', vector = [5, 5, 4, 2, 3/2, 13/4]\<rparr>),
      (''I'', \<lparr>name = ''Refined Connoisseurs'', vector = [5/2, 5, 5, 1, 13/4, 2]\<rparr>),
      (''J'', \<lparr>name = ''Exotica Seekers'', vector = [5/2, 2, 5, 1, 1, 1]\<rparr>)]"

text \<open>
  The weights are the floats of the literals \<^verbatim>\<open>0.60\<close>, \<^verbatim>\<open>0.40\<close>, ...: the decimal rounded
  to binary64.
\<close>

definition AXIS_WEIGHTS :: "(string \<times> (string \<times> real) list) list" where
  "AXIS_WEIGHTS =
     [(''Price'', [(''Q8'', fl (6/10)), (''Q9'', fl (4/10))]),
      (''Convenience'', [(''Q18'', fl (6/10)), (''Q19'', fl (4/10))]),
      (''Quality'', [(''Q10'', fl (7/10)), (''Q11'', fl (3/10))]),
      (''Ingredients'', [(''Q12'', fl (4/10)), (''Q13'', fl (6/10))]),
      (''Social Pressure'', [(''Q14'', fl (5/10)), (''Q15'', fl (3/10)), (''Q23'', fl (2/10))]),
      (''Brand Image'', [(''Q16'', fl (5/10)), (''Q17'', fl (3/10)), (''Q22'', fl (2/10))])]"

section \<open>Scale mapping\<close>

type_synonym row = "string \<rightharpoonup> pyval"

definition in_scale_range :: "real \<Rightarrow> real option" where
  "in_scale_range val = (if 1 \<le> val \<and> val \<le> 5 then Some val else None)"

text \<open>The \<^verbatim>\<open>try: float(answer_text) ... except (ValueError, TypeError)\<close> block.\<close>

definition numeric_fallback :: "string \<Rightarrow> real option" where
  "numeric_fallback answer_text =
     (case py_float answer_text of
        None \<Rightarrow> None
      | Some val \<Rightarrow> in_scale_range val)"

definition scale_for :: "string \<Rightarrow> (string \<times> nat) list option" where
  "scale_for question_key =
     (if question_key \<in> set [''q8'', ''q10'', ''q12'', ''q14'', ''q16'', ''q18'']
        then Some IMPORTANCE_SCALE
      else if question_key \<in> set [''q9'', ''q17'', ''q19''] then Some FREQUENCY_SCALE
      else if question_key = ''q11'' then Some PAY_MORE_SCALE
      else if question_key = ''q22'' then Some LAUNCH_BEHAVIOR_SCALE
      else if question_key = ''q23'' then Some INFLUENCER_SCALE
      else if question_key = ''q21'' then Some INCOME_REACTION_SCALE
      else None)"

text \<open>The loop \<^verbatim>\<open>for key, value in scale.items()\<close> of the loose match.\<close>

fun loose_match :: "(string \<times> nat) list \<Rightarrow> string \<Rightarrow> nat option" where
  "loose_match [] answer_text = None"
| "loose_match ((key, v) # scale) answer_text =
     (if py_in key answer_text \<or> py_in answer_text key then Some v
      else loose_match scale answer_text)"

definition map_answer_to_scale :: "string \<Rightarrow> pyval \<Rightarrow> real option" where
  "map_answer_to_scale question_key answer =
     (case answer of
        PyNum val s \<Rightarrow> in_scale_range val
      | _ \<Rightarrow>
          (let answer_text = normalize_text answer in
           case scale_for question_key of
             None \<Rightarrow> numeric_fallback answer_text
           | Some scale \<Rightarrow>
               (case map_of scale answer_text of
                  Some v \<Rightarrow> Some (real v)
                | None \<Rightarrow>
                    (case loose_match scale answer_text of
                       Some v \<Rightarrow> Some (real v)
                     | None \<Rightarrow> numeric_fallback answer_text))))"

section \<open>Axis scores\<close>

definition round_to_quarter :: "real \<Rightarrow> real" where
  "round_to_quarter v = fl (of_int (py_round (fl (v * 4))) / 4)"

text \<open>
  The loop of \<^verbatim>\<open>compute_axis_score\<close> over the weights of one axis, on the pair
  \<^verbatim>\<open>(weighted_sum, total_weight)\<close>.
\<close>

fun axis_loop :: "row \<Rightarrow> (string \<times> real) list \<Rightarrow> real \<times> real \<Rightarrow> real \<times> real" where
  "axis_loop row_data [] acc = acc"
| "axis_loop row_data ((q_key_raw, w) # weights) (weighted_sum, total_weight) =
     (let q_key = lower q_key_raw in
      case row_data q_key of
        None \<Rightarrow> axis_loop row_data weights (weighted_sum, total_weight)
      | Some cell \<Rightarrow>
          (case map_answer_to_scale q_key cell of
             None \<Rightarrow> axis_loop row_data weights (weighted_sum, total_weight)
           | Some v \<Rightarrow>
               axis_loop row_data weights
                 (fl (weighted_sum + fl (v * w)), fl (total_weight + w))))"

definition compute_axis_score :: "row \<Rightarrow> string \<Rightarrow> real option" where
  "compute_axis_score row_data axis_name =
     (case map_of AXIS_WEIGHTS axis_name of
        None \<Rightarrow> None
      | Some weights \<Rightarrow>
          (let (weighted_sum, total_weight) = axis_loop row_data weights (0, 0) in
           if total_weight = 0 then None
           else Some (round_to_quarter (fl (weighted_sum / total_weight)))))"

text \<open>
  A dictionary of axis scores is the list of its items in insertion order; the axes are
  pairwise different, so no key occurs twice.
\<close>

type_synonym axis_scores = "(string \<times> real) list"

fun all_axes_loop :: "row \<Rightarrow> string list \<Rightarrow> axis_scores" where
  "all_axes_loop row_data [] = []"
| "all_axes_loop row_data (axis # axes) =
     (case compute_axis_score row_data axis of
        None \<Rightarrow> all_axes_loop row_data axes
      | Some val \<Rightarrow> (axis, val) # all_axes_loop row_data axes)"

definition compute_all_axes :: "row \<Rightarrow> axis_scores" where
  "compute_all_axes row_data = all_axes_loop row_data AXES"

section \<open>Persona classification\<close>

subsection \<open>The anchor answer\<close>

definition persona_code_known :: "string \<Rightarrow> bool" where
  "persona_code_known code = (map_of PERSONA_PROTOTYPES code \<noteq> None)"

text \<open>\<^verbatim>\<open>_code_by_persona_name\<close>: the loop over the prototypes.\<close>

fun code_by_name_loop :: "(string \<times> prototype) list \<Rightarrow> string \<Rightarrow> string option" where
  "code_by_name_loop [] n = None"
| "code_by_name_loop ((code, data) # protos) n =
     (if normalize_text (PyStr (name data)) = n then Some code
      else code_by_name_loop protos n)"

definition code_by_persona_name :: "string \<Rightarrow> string option" where
  "code_by_persona_name nm = code_by_name_loop PERSONA_PROTOTYPES (normalize_text (PyStr nm))"

text \<open>
  \<^verbatim>\<open>re.search(r"\(([^)]+)\)", s)\<close>: the leftmost \<^verbatim>\<open>(\<close> followed by a non-empty run of
  characters other than \<^verbatim>\<open>)\<close> and then by \<^verbatim>\<open>)\<close>; the result is the run (group 1).
\<close>

fun paren_search :: "string \<Rightarrow> string option" where
  "paren_search [] = None"
| "paren_search (c # cs) =
     (let run = takeWhile (\<lambda>x. x \<noteq> CHR '')'') cs;
          rest = dropWhile (\<lambda>x. x \<noteq> CHR '')'') cs in
      if c = CHR ''('' \<and> run \<noteq> [] \<and> rest \<noteq> [] then Some run
      else paren_search cs)"

text \<open>
  \<^verbatim>\<open>re.search(r"\b([a-j])\b", s)\<close>: the leftmost letter \<^verbatim>\<open>a\<close>..\<^verbatim>\<open>j\<close> with no word
  character (letter, digit, underscore) before or after it. The flag tells whether the
  character before the rest of the text is a word character.
\<close>

definition isword :: "char \<Rightarrow> bool" where
  "isword c = (isalpha c \<or> isdigit c \<or> c = CHR ''_'')"

definition is_a_to_j :: "char \<Rightarrow> bool" where
  "is_a_to_j c = (97 \<le> ord c \<and> ord c \<le> 106)"

fun letter_search :: "bool \<Rightarrow> string \<Rightarrow> char option" where
  "letter_search prev [] = None"
| "letter_search prev (c # cs) =
     (if \<not> prev \<and> is_a_to_j c \<and> (case cs of [] \<Rightarrow> True | d # ds \<Rightarrow> \<not> isword d) then Some c
      else letter_search (isword c) cs)"

text \<open>Rule 3 of \<^verbatim>\<open>_q20_to_code\<close>: the first prototype whose name occurs in the text.\<close>

fun name_in_text_loop :: "(string \<times> prototype) list \<Rightarrow> string \<Rightarrow> string option" where
  "name_in_text_loop [] s = None"
| "name_in_text_loop ((code, data) # protos) s =
     (if py_in (normalize_text (PyStr (name data))) s then Some code
      else name_in_text_loop protos s)"

definition q20_rule1 :: "string \<Rightarrow> string option" where
  "q20_rule1 s =
     (if length s = 1 \<and> list_all isalpha s \<and> persona_code_known (upper s) then Some (upper s)
      else None)"

definition q20_rule2 :: "string \<Rightarrow> string option" where
  "q20_rule2 s =
     (case paren_search s of
        None \<Rightarrow> None
      | Some group1 \<Rightarrow>
          (case code_by_persona_name (strip group1) of
             None \<Rightarrow> None
           | Some code \<Rightarrow> if code \<noteq> [] then Some code else None))"

definition q20_rule4 :: "string \<Rightarrow> string option" where
  "q20_rule4 s =
     (case letter_search False s of
        None \<Rightarrow> None
      | Some c \<Rightarrow> if persona_code_known (upper [c]) then Some (upper [c]) else None)"

definition q20_to_code :: "pyval \<Rightarrow> string option" where
  "q20_to_code raw =
     (if raw = PyNone then None
      else (let s = normalize_text raw in
            case q20_rule1 s of
              Some code \<Rightarrow> Some code
            | None \<Rightarrow>
                (case q20_rule2 s of
                   Some code \<Rightarrow> Some code
                 | None \<Rightarrow>
                     (case name_in_text_loop PERSONA_PROTOTYPES s of
                        Some code \<Rightarrow> Some code
                      | None \<Rightarrow> q20_rule4 s))))"

subsection \<open>Nearest prototype\<close>

text \<open>
  \<^verbatim>\<open>np.dot\<close> is modelled as adding the rounded products from left to right;
  \<^verbatim>\<open>np.linalg.norm\<close> of a vector is the rounded square root of its dot product with
  itself. Both vectors have six components wherever the engine calls
  \<^verbatim>\<open>cosine_similarity\<close>. The vectors the engine passes hold multiples of \<open>1/4\<close> between
  0 and 5: on them every product and partial sum is exact, whatever the order of the
  additions, and the only roundings are those of the two square roots, of the product
  of the norms and of the quotient.
\<close>

definition dot :: "real list \<Rightarrow> real list \<Rightarrow> real" where
  "dot v1 v2 = foldl (\<lambda>s (a, b). fl (s + fl (a * b))) 0 (zip v1 v2)"

definition norm :: "real list \<Rightarrow> real" where
  "norm v = fl (sqrt (dot v v))"

definition cosine_similarity :: "real list \<Rightarrow> real list \<Rightarrow> real" where
  "cosine_similarity vec1 vec2 =
     (let na = norm vec1; nb = norm vec2 in
      if na = 0 \<or> nb = 0 then 0
      else fl (dot vec1 vec2 / fl (na * nb)))"

definition dict_get :: "('k \<times> 'v) list \<Rightarrow> 'k \<Rightarrow> 'v \<Rightarrow> 'v" where
  "dict_get d k dflt = (case map_of d k of None \<Rightarrow> dflt | Some v \<Rightarrow> v)"

text \<open>The loop of \<^verbatim>\<open>find_closest_persona\<close> on \<^verbatim>\<open>(best_code, best_name, best_sim)\<close>.\<close>

fun closest_loop ::
  "real list \<Rightarrow> (string \<times> prototype) list \<Rightarrow> string \<times> string \<times> real \<Rightarrow> string \<times> string \<times> real"
where
  "closest_loop user_vec [] best = best"
| "closest_loop user_vec ((code, proto) # protos) (best_code, best_name, best_sim) =
     (let sim = cosine_similarity user_vec (vector proto) in
      if best_sim < sim then closest_loop user_vec protos (code, name proto, sim)
      else closest_loop user_vec protos (best_code, best_name, best_sim))"

definition find_closest_persona :: "axis_scores \<Rightarrow> string \<times> string \<times> real" where
  "find_closest_persona scores =
     (let user_vec = map (\<lambda>axis. dict_get scores axis 0) AXES in
      closest_loop user_vec PERSONA_PROTOTYPES ([], [], - 1))"

subsection \<open>\<^verbatim>\<open>determine_persona\<close>\<close>

definition truthy :: "pyval \<Rightarrow> bool" where
  "truthy v = (case v of PyNone \<Rightarrow> False | PyNum x s \<Rightarrow> x \<noteq> 0 | PyStr s \<Rightarrow> s \<noteq> [])"

text \<open>\<^verbatim>\<open>{AXES[i]: vec[i] for i in range(len(AXES))}\<close>.\<close>

definition vector_to_scores :: "real list \<Rightarrow> py_error + axis_scores" where
  "vector_to_scores vec = (if length vec < length AXES then Inl IndexError else Inr (zip AXES vec))"

type_synonym classification = "string \<times> string \<times> axis_scores \<times> bool"

definition anchor_code :: "row \<Rightarrow> string option" where
  "anchor_code row_data =
     (let q20_raw = (case row_data ''q20'' of None \<Rightarrow> PyNone | Some v \<Rightarrow> v);
          code_from_q20 = (if truthy q20_raw then q20_to_code q20_raw else None) in
      case code_from_q20 of
        None \<Rightarrow> None
      | Some code \<Rightarrow> if code \<noteq> [] then Some code else None)"

definition determine_persona :: "row \<Rightarrow> py_error + classification" where
  "determine_persona row_data =
     (case anchor_code row_data of
        Some code_from_q20 \<Rightarrow>
          (case map_of PERSONA_PROTOTYPES code_from_q20 of
             None \<Rightarrow> Inl KeyError
           | Some proto \<Rightarrow>
               (case vector_to_scores (vector proto) of
                  Inl e \<Rightarrow> Inl e
                | Inr scores \<Rightarrow> Inr (code_from_q20, name proto, scores, True)))
      | None \<Rightarrow>
          (let scores = compute_all_axes row_data in
           if length scores < 4 then Inr ([], ''Unknown'', scores, False)
           else (let (code, nm, sim) = find_closest_persona scores in
                 Inr (code, nm, scores, False))))"

section \<open>Data set detection\<close>

text \<open>\<^verbatim>\<open>is_taam_dataset\<close>, on the column names of the data frame.\<close>

definition is_taam_dataset :: "string list \<Rightarrow> bool" where
  "is_taam_dataset df_columns =
     (let columns = set (map lower df_columns);
          taam_question_count = length (filter (\<lambda>q. q \<in> columns) CORE_TAAM_QUESTIONS) in
      MIN_TAAM_QUESTIONS \<le> taam_question_count)"

section \<open>Aggregation\<close>

text \<open>
  The aggregators get the rows of the data frame (\<^verbatim>\<open>dataframe_to_records(df)\<close>). An
  exception of \<^verbatim>\<open>determine_persona\<close> or of a dictionary lookup ends the aggregation.
\<close>

definition PERSONA_CODES_ORDER :: "string list" where
  "PERSONA_CODES_ORDER = sort (map fst PERSONA_PROTOTYPES)"

definition persona_name_from_code :: "string \<Rightarrow> py_error + string" where
  "persona_name_from_code code =
     (case map_of PERSONA_PROTOTYPES code of None \<Rightarrow> Inl KeyError | Some proto \<Rightarrow> Inr (name proto))"

definition is_valid_persona :: "string \<Rightarrow> bool" where
  "is_valid_persona nm = (nm \<noteq> [] \<and> nm \<noteq> ''Unknown'')"

subsection \<open>Persona distribution\<close>

text \<open>A \<^verbatim>\<open>Counter\<close> is the list of its items in insertion order; a missing key counts 0.\<close>

type_synonym counter = "(string \<times> nat) list"

fun counter_incr :: "counter \<Rightarrow> string \<Rightarrow> counter" where
  "counter_incr [] k = [(k, 1)]"
| "counter_incr ((k', n) # c) k =
     (if k' = k then (k', n + 1) # c else (k', n) # counter_incr c k)"

fun count_loop :: "row list \<Rightarrow> counter \<Rightarrow> py_error + counter" where
  "count_loop [] persona_counts = Inr persona_counts"
| "count_loop (record # records) persona_counts =
     (case determine_persona record of
        Inl e \<Rightarrow> Inl e
      | Inr (code, persona_name, scores, anchored) \<Rightarrow>
          if is_valid_persona persona_name
          then count_loop records (counter_incr persona_counts persona_name)
          else count_loop records persona_counts)"

record distribution_entry =
  persona :: string
  persona_code :: string
  count :: nat
  percent :: real

fun distribution_loop :: "string list \<Rightarrow> counter \<Rightarrow> nat \<Rightarrow> py_error + distribution_entry list" where
  "distribution_loop [] persona_counts total' = Inr []"
| "distribution_loop (code # codes) persona_counts total' =
     (case persona_name_from_code code of
        Inl e \<Rightarrow> Inl e
      | Inr persona_name \<Rightarrow>
          (let cnt = dict_get persona_counts persona_name 0;
               pct = (if 0 < total' then py_round_n (fl (fl (real cnt / real total') * 100)) 2 else 0) in
           case distribution_loop codes persona_counts total' of
             Inl e \<Rightarrow> Inl e
           | Inr distribution \<Rightarrow>
               Inr (\<lparr>persona = persona_name, persona_code = code, count = cnt, percent = pct\<rparr>
                    # distribution)))"

text \<open>The result is the pair of \<^verbatim>\<open>'distribution'\<close> and \<^verbatim>\<open>'total_respondents'\<close>.\<close>

definition generate_taam_persona_distribution ::
  "row list \<Rightarrow> py_error + (distribution_entry list \<times> nat)" where
  "generate_taam_persona_distribution records =
     (case count_loop records [] of
        Inl e \<Rightarrow> Inl e
      | Inr persona_counts \<Rightarrow>
          (let total' = sum_list (map snd persona_counts) in
           case distribution_loop PERSONA_CODES_ORDER persona_counts total' of
             Inl e \<Rightarrow> Inl e
           | Inr distribution \<Rightarrow> Inr (distribution, total')))"

subsection \<open>Heat map\<close>

text \<open>\<^verbatim>\<open>persona_axes.setdefault(persona_name, []).append(axis_scores)\<close>.\<close>

fun setdefault_append ::
  "(string \<times> axis_scores list) list \<Rightarrow> string \<Rightarrow> axis_scores \<Rightarrow> (string \<times> axis_scores list) list"
where
  "setdefault_append [] k a = [(k, [a])]"
| "setdefault_append ((k', as) # d) k a =
     (if k' = k then (k', as @ [a]) # d else (k', as) # setdefault_append d k a)"

fun group_loop ::
  "row list \<Rightarrow> (string \<times> axis_scores list) list \<Rightarrow> py_error + (string \<times> axis_scores list) list"
where
  "group_loop [] persona_axes = Inr persona_axes"
| "group_loop (record # records) persona_axes =
     (case determine_persona record of
        Inl e \<Rightarrow> Inl e
      | Inr (code, persona_name, scores, anchored) \<Rightarrow>
          if is_valid_persona persona_name \<and> scores \<noteq> []
          then group_loop records (setdefault_append persona_axes persona_name scores)
          else group_loop records persona_axes)"

text \<open>
  \<^verbatim>\<open>sum(vals)\<close> is modelled as adding from left to right, starting from the integer 0.
  The values summed are axis scores, multiples of \<open>1/4\<close> between 1 and 5, so the partial
  sums are exact.
\<close>

definition py_sum :: "real list \<Rightarrow> real" where
  "py_sum vals = foldl (\<lambda>s v. fl (s + v)) 0 vals"

fun avg_loop :: "string list \<Rightarrow> axis_scores list \<Rightarrow> axis_scores" where
  "avg_loop [] axes_list = []"
| "avg_loop (axis # axes) axes_list =
     (let vals = map (\<lambda>a. the (map_of a axis)) (filter (\<lambda>a. map_of a axis \<noteq> None) axes_list) in
      if vals \<noteq> [] then (axis, py_round_n (fl (py_sum vals / real (length vals))) 2)
                          # avg_loop axes axes_list
      else avg_loop axes axes_list)"

fun heatmap_loop :: "(string \<times> axis_scores list) list \<Rightarrow> (string \<times> axis_scores) list" where
  "heatmap_loop [] = []"
| "heatmap_loop ((persona_name, axes_list) # persona_axes) =
     (if axes_list = [] then heatmap_loop persona_axes
      else (let avg_axes = avg_loop AXES axes_list in
            if avg_axes \<noteq> [] then (persona_name, avg_axes) # heatmap_loop persona_axes
            else heatmap_loop persona_axes))"

fun canonical_loop :: "string list \<Rightarrow> py_error + (string \<times> axis_scores) list" where
  "canonical_loop [] = Inr []"
| "canonical_loop (code # codes) =
     (case map_of PERSONA_PROTOTYPES code of
        None \<Rightarrow> Inl KeyError
      | Some proto \<Rightarrow>
          (case vector_to_scores (vector proto) of
             Inl e \<Rightarrow> Inl e
           | Inr scores \<Rightarrow>
               (case canonical_loop codes of
                  Inl e \<Rightarrow> Inl e
                | Inr heatmap \<Rightarrow> Inr ((name proto, scores) # heatmap))))"

definition generate_taam_heatmap ::
  "row list \<Rightarrow> bool \<Rightarrow> py_error + (string \<times> axis_scores) list" where
  "generate_taam_heatmap records use_canonical =
     (if use_canonical then canonical_loop PERSONA_CODES_ORDER
      else (case group_loop records [] of
              Inl e \<Rightarrow> Inl e
            | Inr persona_axes \<Rightarrow> Inr (heatmap_loop persona_axes)))"

section \<open>Definitions in the words of the specification\<close>

text \<open>
  The rounding as the specification words it: the integer nearest to the argument, an
  exact half going away from zero; and the axis score with that rounding in the place
  of \<^verbatim>\<open>round\<close>.
\<close>

definition round_half_away_from_zero :: "real \<Rightarrow> int" where
  "round_half_away_from_zero x = (if 0 \<le> x then \<lfloor>x + 1 / 2\<rfloor> else - \<lfloor>- x + 1 / 2\<rfloor>)"

definition spec_axis_score :: "row \<Rightarrow> string \<Rightarrow> real option" where
  "spec_axis_score row_data axis_name =
     (case map_of AXIS_WEIGHTS axis_name of
        None \<Rightarrow> None
      | Some weights \<Rightarrow>
          (let (weighted_sum, total_weight) = axis_loop row_data weights (0, 0) in
           if total_weight = 0 then None
           else Some (of_int (round_half_away_from_zero (fl (weighted_sum / total_weight) * 4)) / 4)))"

text \<open>
  The persona name a row is classified to (\<open>None\<close> if \<^verbatim>\<open>determine_persona\<close> raised), and
  the persona names in the order of their codes.
\<close>

definition classified_name :: "row \<Rightarrow> string option" where
  "classified_name row_data =
     (case determine_persona row_data of Inl e \<Rightarrow> None | Inr (code, nm, scores, anchored) \<Rightarrow> Some nm)"

definition persona_names :: "string list" where
  "persona_names = map (\<lambda>code. name (the (map_of PERSONA_PROTOTYPES code))) PERSONA_CODES_ORDER"

text \<open>
  The percentage of an entry as the specification words it: the exact value of
  \<open>count / total_valid * 100\<close> rounded to 2 decimals, and \<open>0.0\<close> when the total is 0.
\<close>

definition spec_percent :: "nat \<Rightarrow> nat \<Rightarrow> real" where
  "spec_percent cnt total' =
     (if 0 < total' then py_round_n (real cnt / real total' * 100) 2 else 0)"

text \<open>
  The axis-score mappings of the rows that contribute to a persona in the observed heat
  map (a valid persona and a non-empty mapping), in row order; the values of an axis in
  the mappings that have it; and the exact average.
\<close>

definition contributing :: "row list \<Rightarrow> string \<Rightarrow> axis_scores list" where
  "contributing records nm =
     concat (map (\<lambda>r. case determine_persona r of
                          Inl e \<Rightarrow> []
                        | Inr (code, nm', scores, anchored) \<Rightarrow>
                            if nm' = nm \<and> nm' \<noteq> ''Unknown'' \<and> scores \<noteq> [] then [scores] else [])
                 records)"

definition axis_values :: "axis_scores list \<Rightarrow> string \<Rightarrow> real list" where
  "axis_values axes_list axis =
     map (\<lambda>a. the (map_of a axis)) (filter (\<lambda>a. map_of a axis \<noteq> None) axes_list)"

definition average :: "real list \<Rightarrow> real" where
  "average vals = sum_list vals / real (length vals)"

section \<open>Properties of the rounding functions\<close>

lemma py_round_of_int: "py_round (of_int k) = k"
  by (simp add: py_round_def)

lemma py_round_err: "\<bar>of_int (py_round x) - x\<bar> \<le> 1 / 2"
  unfolding py_round_def Let_def by (auto; linarith)

lemma py_round_between:
  assumes "of_int a \<le> x" "x \<le> of_int b"
  shows "a \<le> py_round x \<and> py_round x \<le> b"
proof -
  have "a \<le> \<lfloor>x\<rfloor>" using assms(1) by (simp add: le_floor_iff)
  have "\<lfloor>x\<rfloor> \<le> b" using assms(2) by (simp add: floor_le_iff) 
  have "x < of_int b \<or> x = of_int b" using assms(2) by linarith
  then have "\<lfloor>x\<rfloor> + 1 \<le> b \<or> x = of_int b"
    by (metis floor_less_iff zless_imp_add1_zle)
  with \<open>a \<le> \<lfloor>x\<rfloor>\<close> \<open>\<lfloor>x\<rfloor> \<le> b\<close> show ?thesis
    unfolding py_round_def Let_def by (auto)
qed

lemma fl_zero: "fl 0 = 0" by (simp add: fl_def)

lemma powr2_int: "(2::real) powr real_of_int k = 2 powi k"
  by (simp add: powr_real_of_int')

lemma fl_exponent:
  assumes "x \<noteq> 0"
  shows "2 powi \<lfloor>log 2 \<bar>x\<bar>\<rfloor> \<le> \<bar>x\<bar>" "\<bar>x\<bar> < 2 powi (\<lfloor>log 2 \<bar>x\<bar>\<rfloor> + 1)"
proof -
  have pos: "0 < \<bar>x\<bar>" using assms by simp
  have two: "1 < (2::real)" by simp
  have "2 powr real_of_int \<lfloor>log 2 \<bar>x\<bar>\<rfloor> \<le> \<bar>x\<bar> \<and> \<bar>x\<bar> < 2 powr real_of_int (\<lfloor>log 2 \<bar>x\<bar>\<rfloor> + 1)"
    using floor_log_eq_powr_iff[OF pos two, of "\<lfloor>log 2 \<bar>x\<bar>\<rfloor>"] by blast
  then show "2 powi \<lfloor>log 2 \<bar>x\<bar>\<rfloor> \<le> \<bar>x\<bar>" "\<bar>x\<bar> < 2 powi (\<lfloor>log 2 \<bar>x\<bar>\<rfloor> + 1)"
    unfolding powr2_int by blast+
qed

lemma fl_eval:
  assumes "2 powi e \<le> \<bar>x\<bar>" "\<bar>x\<bar> < 2 powi (e + 1)"
  shows "fl x = of_int (py_round (x * 2 powi (52 - e))) * 2 powi (e - 52)"
proof -
  have "0 < (2::real) powi e" by simp
  then have pos: "0 < \<bar>x\<bar>" using assms(1) by linarith
  have "2 powr real_of_int e \<le> \<bar>x\<bar> \<and> \<bar>x\<bar> < 2 powr real_of_int (e + 1)"
    unfolding powr2_int using assms by blast
  moreover have two: "1 < (2::real)" by simp
  ultimately have "\<lfloor>log 2 \<bar>x\<bar>\<rfloor> = e"
    using floor_log_eq_powr_iff[OF pos two, of e] by blast
  then show ?thesis using pos by (simp add: fl_def Let_def)
qed

lemma fl_exact:
  assumes "\<bar>m\<bar> < 2 ^ 53"
  shows "fl (of_int m * 2 powi j) = of_int m * 2 powi j"
proof (cases "m = 0")
  case True then show ?thesis by (simp add: fl_zero)
next
  case False
  define x :: real where "x = of_int m * 2 powi j"
  define e where "e = \<lfloor>log 2 \<bar>x\<bar>\<rfloor>"
  have xne: "x \<noteq> 0" using False by (simp add: x_def)
  have lo: "2 powi e \<le> \<bar>x\<bar>" and hi: "\<bar>x\<bar> < 2 powi (e + 1)"
    using fl_exponent[OF xne] by (simp_all add: e_def)
  have "\<bar>x\<bar> = of_int \<bar>m\<bar> * 2 powi j" by (simp add: x_def abs_mult)
  also have "\<dots> < 2 ^ 53 * 2 powi j"
    using assms by (simp add: of_int_less_iff[where 'a=real, symmetric] del: of_int_less_iff)
  also have "\<dots> = 2 powi (j + 53)" by (simp add: power_int_add)
  finally have "2 powi e < (2::real) powi (j + 53)" using lo by linarith
  have "e < j + 53"
  proof (rule ccontr)
    assume "\<not> e < j + 53"
    then have "(2::real) powi (j + 53) \<le> 2 powi e"
      by (intro power_int_increasing) simp_all
    with \<open>2 powi e < (2::real) powi (j + 53)\<close> show False by simp
  qed
  then have "0 \<le> j + 52 - e" by simp
  then obtain n :: nat where n: "j + 52 - e = int n"
    using nonneg_int_cases by blast
  have "x * 2 powi (52 - e) = of_int m * 2 powi (j + (52 - e))"
    by (simp add: x_def power_int_add)
  also have "j + (52 - e) = int n" using n by simp
  also have "of_int m * (2::real) powi int n = of_int (m * 2 ^ n)" by simp
  finally have "py_round (x * 2 powi (52 - e)) = m * 2 ^ n"
    by (simp only: py_round_of_int)
  then have "fl x = of_int (m * 2 ^ n) * 2 powi (e - 52)"
    using fl_eval[OF lo hi] by simp
  also have "\<dots> = of_int m * (2 powi int n * 2 powi (e - 52))" by simp
  also have "2 powi int n * (2::real) powi (e - 52) = 2 powi (int n + (e - 52))"
    by (simp add: power_int_add)
  also have "int n + (e - 52) = j" using n by simp
  finally show ?thesis by (simp add: x_def)
qed

lemma fl_rel_err: "\<bar>fl x - x\<bar> \<le> \<bar>x\<bar> / 2 ^ 53"
proof (cases "x = 0")
  case True then show ?thesis by (simp add: fl_zero)
next
  case False
  define e where "e = \<lfloor>log 2 \<bar>x\<bar>\<rfloor>"
  define y where "y = x * 2 powi (52 - e)"
  have lo: "2 powi e \<le> \<bar>x\<bar>" using fl_exponent(1)[OF False] by (simp add: e_def)
  have flx: "fl x = of_int (py_round y) * 2 powi (e - 52)"
    using False by (simp add: fl_def e_def y_def Let_def)
  have xy: "x = y * 2 powi (e - 52)"
    by (simp add: y_def power_int_diff)
  have "\<bar>fl x - x\<bar> = \<bar>of_int (py_round y) - y\<bar> * 2 powi (e - 52)"
    by (subst xy, subst flx) (simp add: left_diff_distrib[symmetric] abs_mult)
  also have "\<dots> \<le> 1 / 2 * 2 powi (e - 52)"
    by (rule mult_right_mono[OF py_round_err]) simp
  also have "\<dots> = 2 powi e / 2 ^ 53" by (simp add: power_int_diff)
  also have "\<dots> \<le> \<bar>x\<bar> / 2 ^ 53" using lo by (simp add: divide_right_mono)
  finally show ?thesis .
qed

lemma fl_dyadic:
  assumes "x * 2 ^ k \<in> \<int>" "\<bar>x\<bar> * 2 ^ k < 2 ^ 53"
  shows "fl x = x"
proof -
  from assms(1) obtain m :: int where m: "x * 2 ^ k = of_int m" by (auto elim: Ints_cases)
  then have x: "x = of_int m * 2 powi (- int k)"
    by (simp add: power_int_minus field_simps)
  have "\<bar>real_of_int m\<bar> < 2 ^ 53" using assms(2) m[symmetric] by (simp add: abs_mult)
  then have "\<bar>m\<bar> < 2 ^ 53"
    by (metis of_int_abs of_int_less_iff of_int_numeral of_int_power)
  then show ?thesis unfolding x by (rule fl_exact)
qed

lemma fl_int: "x \<in> \<int> \<Longrightarrow> \<bar>x\<bar> < 2 ^ 53 \<Longrightarrow> fl x = x"
  using fl_dyadic[of x 0] by simp

lemma fl_sixteenths: "x * 16 \<in> \<int> \<Longrightarrow> \<bar>x\<bar> < 2 ^ 49 \<Longrightarrow> fl x = x"
  using fl_dyadic[of x 4] by simp

lemma fl_lower: "0 \<le> x \<Longrightarrow> x * (1 - 1 / 2 ^ 53) \<le> fl x"
proof -
  assume "0 \<le> x"
  then have "\<bar>fl x - x\<bar> \<le> x / 2 ^ 53" using fl_rel_err[of x] by simp
  then have "x - x / 2 ^ 53 \<le> fl x" by linarith
  then show ?thesis by (simp add: algebra_simps)
qed

lemma fl_upper: "0 \<le> x \<Longrightarrow> fl x \<le> x * (1 + 1 / 2 ^ 53)"
proof -
  assume "0 \<le> x"
  then have "\<bar>fl x - x\<bar> \<le> x / 2 ^ 53" using fl_rel_err[of x] by simp
  then have "fl x \<le> x + x / 2 ^ 53" by linarith
  then show ?thesis by (simp add: algebra_simps)
qed

lemma fl_nonneg: "0 \<le> x \<Longrightarrow> 0 \<le> fl x"
proof -
  assume "0 \<le> x"
  then have "0 \<le> x * (1 - 1 / 2 ^ 53)" by simp
  with fl_lower[OF \<open>0 \<le> x\<close>] show ?thesis by linarith
qed

lemma fl_pos: "0 < x \<Longrightarrow> 0 < fl x"
proof -
  assume "0 < x"
  then have "0 < x * (1 - 1 / 2 ^ 53)" by simp
  with fl_lower[of x] \<open>0 < x\<close> show ?thesis by linarith
qed

section \<open>Data set detection: the threshold\<close>

lemma core_distinct: "distinct CORE_TAAM_QUESTIONS"
  by (simp add: CORE_TAAM_QUESTIONS_def)

lemma taam_question_count:
  "length (filter (\<lambda>q. q \<in> cols) CORE_TAAM_QUESTIONS) = card (set CORE_TAAM_QUESTIONS \<inter> cols)"
proof -
  have "{x. x \<in> cols} \<inter> set CORE_TAAM_QUESTIONS = set CORE_TAAM_QUESTIONS \<inter> cols" by auto
  then show ?thesis using distinct_length_filter[OF core_distinct, of "\<lambda>q. q \<in> cols"] by simp
qed

text \<open>
  Claim C8. \<^verbatim>\<open>is_taam_dataset\<close> is true exactly when at least 8 of the 10 core question
  keys \<^verbatim>\<open>q8, q9, q10, q11, q12, q13, q14, q16, q18, q19\<close> are among the lowercased column
  names; with exactly 8 of them present it is true, with exactly 7 it is false.
\<close>

theorem is_taam_dataset_threshold:
  "CORE_TAAM_QUESTIONS =
     [''q8'', ''q9'', ''q10'', ''q11'', ''q12'', ''q13'', ''q14'', ''q16'', ''q18'', ''q19''] \<and>
   length CORE_TAAM_QUESTIONS = 10 \<and>
   (is_taam_dataset df_columns \<longleftrightarrow>
      8 \<le> card (set CORE_TAAM_QUESTIONS \<inter> set (map lower df_columns))) \<and>
   (card (set CORE_TAAM_QUESTIONS \<inter> set (map lower df_columns)) = 8 \<longrightarrow>
      is_taam_dataset df_columns) \<and>
   (card (set CORE_TAAM_QUESTIONS \<inter> set (map lower df_columns)) = 7 \<longrightarrow>
      \<not> is_taam_dataset df_columns)"
proof -
  have iff: "is_taam_dataset df_columns \<longleftrightarrow>
      8 \<le> card (set CORE_TAAM_QUESTIONS \<inter> set (map lower df_columns))"
    unfolding is_taam_dataset_def Let_def taam_question_count MIN_TAAM_QUESTIONS_def ..
  have "CORE_TAAM_QUESTIONS =
     [''q8'', ''q9'', ''q10'', ''q11'', ''q12'', ''q13'', ''q14'', ''q16'', ''q18'', ''q19'']"
    by (simp add: CORE_TAAM_QUESTIONS_def)
  moreover have "length CORE_TAAM_QUESTIONS = 10" by (simp add: CORE_TAAM_QUESTIONS_def)
  ultimately show ?thesis using iff by simp
qed

theorem is_taam_dataset_threshold_witness:
  "card (set CORE_TAAM_QUESTIONS \<inter> set (map lower
      [''Q8'', ''Q9'', ''Q10'', ''Q11'', ''Q12'', ''Q13'', ''Q14'', ''Q16'', ''Age''])) = 8 \<and>
   is_taam_dataset [''Q8'', ''Q9'', ''Q10'', ''Q11'', ''Q12'', ''Q13'', ''Q14'', ''Q16'', ''Age''] \<and>
   card (set CORE_TAAM_QUESTIONS \<inter> set (map lower
      [''Q8'', ''Q9'', ''Q10'', ''Q11'', ''Q12'', ''Q13'', ''Q14'', ''Q15'', ''Age''])) = 7 \<and>
   \<not> is_taam_dataset [''Q8'', ''Q9'', ''Q10'', ''Q11'', ''Q12'', ''Q13'', ''Q14'', ''Q15'', ''Age'']"
proof -
  have c8: "card (set CORE_TAAM_QUESTIONS \<inter> set (map lower
      [''Q8'', ''Q9'', ''Q10'', ''Q11'', ''Q12'', ''Q13'', ''Q14'', ''Q16'', ''Age''])) = 8"
    by code_simp
  have c7: "card (set CORE_TAAM_QUESTIONS \<inter> set (map lower
      [''Q8'', ''Q9'', ''Q10'', ''Q11'', ''Q12'', ''Q13'', ''Q14'', ''Q15'', ''Age''])) = 7"
    by code_simp
  show ?thesis
    using c8 c7
      is_taam_dataset_threshold[of "[''Q8'', ''Q9'', ''Q10'', ''Q11'', ''Q12'', ''Q13'', ''Q14'', ''Q16'', ''Age'']"]
      is_taam_dataset_threshold[of "[''Q8'', ''Q9'', ''Q10'', ''Q11'', ''Q12'', ''Q13'', ''Q14'', ''Q15'', ''Age'']"]
    by blast
qed

section \<open>Scale mapping: the order of the lookups\<close>

lemmas text_simps =
  normalize_text_def lower_def upper_def strip_def isspace_def ord_def lower_char_def
  upper_char_def isupper_def islower_def isalpha_def isdigit_def char_of_def bit_0


lemma loose_match_none:
  "(\<And>k v. (k, v) \<in> set scale \<Longrightarrow> \<not> (py_in k t \<or> py_in t k)) \<Longrightarrow> loose_match scale t = None"
proof (induction scale)
  case Nil
  then show ?case by simp
next
  case (Cons kv scale)
  obtain k v where kv: "kv = (k, v)" by (cases kv)
  have "\<not> (py_in k t \<or> py_in t k)" using Cons.prems[of k v] kv by simp
  moreover have "loose_match scale t = None"
  proof (rule Cons.IH)
    fix k' v' assume "(k', v') \<in> set scale"
    then show "\<not> (py_in k' t \<or> py_in t k')" using Cons.prems[of k' v'] by simp
  qed
  ultimately show ?case using kv by simp
qed

lemma loose_match_first:
  assumes "i < length scale"
    and "py_in (fst (scale ! i)) t \<or> py_in t (fst (scale ! i))"
    and "\<forall>j<i. \<not> (py_in (fst (scale ! j)) t \<or> py_in t (fst (scale ! j)))"
  shows "loose_match scale t = Some (snd (scale ! i))"
  using assms
proof (induction scale arbitrary: i)
  case Nil
  then show ?case by simp
next
  case (Cons kv scale)
  obtain k v where kv: "kv = (k, v)" by (cases kv)
  show ?case
  proof (cases i)
    case 0
    with Cons.prems kv show ?thesis by simp
  next
    case (Suc i')
    have no: "\<not> (py_in k t \<or> py_in t k)"
      using Cons.prems(3) Suc kv by (metis fst_conv nth_Cons_0 zero_less_Suc)
    have "\<forall>j<i'. \<not> (py_in (fst (scale ! j)) t \<or> py_in t (fst (scale ! j)))"
      using Cons.prems(3) Suc by (metis Suc_less_eq nth_Cons_Suc)
    then have "loose_match scale t = Some (snd (scale ! i'))"
      using Cons.IH[of i'] Cons.prems(1,2) Suc by simp
    with no kv Suc show ?thesis by simp
  qed
qed

text \<open>
  Claim C7. For a question key with a scale table and an answer that is not a number,
  \<^verbatim>\<open>map_answer_to_scale\<close> tries, in this order: the trimmed, lowercased text as a key of
  the table; containment of a table key in the text or of the text in a table key, the
  first key in table order winning; the text parsed as a float, accepted when it lies
  in \<open>[1, 5]\<close>; and returns \<^verbatim>\<open>None\<close> when all three fail. In particular
  \<^verbatim>\<open>map_answer_to_scale('q11', 'yes, sometimes') = 4.0\<close> and
  \<^verbatim>\<open>map_answer_to_scale('q11', '4') = 4.0\<close>.
\<close>

theorem map_answer_to_scale_order:
  assumes "scale_for question_key = Some scale"
    and "answer = PyNone \<or> answer = PyStr s"
  shows
   "(\<forall>v. map_of scale (normalize_text answer) = Some v \<longrightarrow>
        map_answer_to_scale question_key answer = Some (real v)) \<and>
    (\<forall>i. map_of scale (normalize_text answer) = None \<and> i < length scale \<and>
         (py_in (fst (scale ! i)) (normalize_text answer) \<or>
          py_in (normalize_text answer) (fst (scale ! i))) \<and>
         (\<forall>j<i. \<not> (py_in (fst (scale ! j)) (normalize_text answer) \<or>
                    py_in (normalize_text answer) (fst (scale ! j)))) \<longrightarrow>
        map_answer_to_scale question_key answer = Some (real (snd (scale ! i)))) \<and>
    (map_of scale (normalize_text answer) = None \<and>
     (\<forall>k v. (k, v) \<in> set scale \<longrightarrow>
        \<not> (py_in k (normalize_text answer) \<or> py_in (normalize_text answer) k)) \<longrightarrow>
        map_answer_to_scale question_key answer =
          (case py_float (normalize_text answer) of
             None \<Rightarrow> None
           | Some val \<Rightarrow> if 1 \<le> val \<and> val \<le> 5 then Some val else None)) \<and>
    map_answer_to_scale ''q11'' (PyStr ''yes, sometimes'') = Some 4 \<and>
    map_answer_to_scale ''q11'' (PyStr ''4'') = Some 4"
proof -
  let ?t = "normalize_text answer"
  have shape: "map_answer_to_scale question_key answer =
      (case map_of scale ?t of
         Some v \<Rightarrow> Some (real v)
       | None \<Rightarrow> (case loose_match scale ?t of
                    Some v \<Rightarrow> Some (real v)
                  | None \<Rightarrow> numeric_fallback ?t))"
    using assms by (auto simp: map_answer_to_scale_def Let_def)
  have exact: "\<forall>v. map_of scale ?t = Some v \<longrightarrow>
        map_answer_to_scale question_key answer = Some (real v)"
    by (simp add: shape)
  have loose: "\<forall>i. map_of scale ?t = None \<and> i < length scale \<and>
         (py_in (fst (scale ! i)) ?t \<or> py_in ?t (fst (scale ! i))) \<and>
         (\<forall>j<i. \<not> (py_in (fst (scale ! j)) ?t \<or> py_in ?t (fst (scale ! j)))) \<longrightarrow>
        map_answer_to_scale question_key answer = Some (real (snd (scale ! i)))"
  proof (intro allI impI)
    fix i
    assume a: "map_of scale ?t = None \<and> i < length scale \<and>
         (py_in (fst (scale ! i)) ?t \<or> py_in ?t (fst (scale ! i))) \<and>
         (\<forall>j<i. \<not> (py_in (fst (scale ! j)) ?t \<or> py_in ?t (fst (scale ! j))))"
    then have "loose_match scale ?t = Some (snd (scale ! i))"
      using loose_match_first[of i scale ?t] by blast
    with a show "map_answer_to_scale question_key answer = Some (real (snd (scale ! i)))"
      by (simp add: shape)
  qed
  have fallback: "map_of scale ?t = None \<and>
     (\<forall>k v. (k, v) \<in> set scale \<longrightarrow> \<not> (py_in k ?t \<or> py_in ?t k)) \<longrightarrow>
        map_answer_to_scale question_key answer =
          (case py_float ?t of
             None \<Rightarrow> None
           | Some val \<Rightarrow> if 1 \<le> val \<and> val \<le> 5 then Some val else None)"
  proof (intro impI)
    assume a: "map_of scale ?t = None \<and>
     (\<forall>k v. (k, v) \<in> set scale \<longrightarrow> \<not> (py_in k ?t \<or> py_in ?t k))"
    then have "loose_match scale ?t = None"
      using loose_match_none[of scale ?t] by blast
    with a show "map_answer_to_scale question_key answer =
          (case py_float ?t of
             None \<Rightarrow> None
           | Some val \<Rightarrow> if 1 \<le> val \<and> val \<le> 5 then Some val else None)"
      by (simp add: shape numeric_fallback_def in_scale_range_def split: option.splits)
  qed
  have ex1: "map_answer_to_scale ''q11'' (PyStr ''yes, sometimes'') = Some 4"
    by (simp add: map_answer_to_scale_def normalize_text_def scale_for_def PAY_MORE_SCALE_def
        lower_def strip_def isspace_def ord_def lower_char_def isupper_def)
  have ex2: "map_answer_to_scale ''q11'' (PyStr ''4'') = Some 4"
    by (simp add: map_answer_to_scale_def normalize_text_def scale_for_def PAY_MORE_SCALE_def
        lower_def strip_def isspace_def ord_def lower_char_def isupper_def)
  from exact loose fallback ex1 ex2 show ?thesis by blast
qed


theorem map_answer_to_scale_order_witness:
  "scale_for ''q11'' = Some PAY_MORE_SCALE \<and>
   normalize_text (PyStr '' Yes, Sometimes '') = ''yes, sometimes'' \<and>
   map_of PAY_MORE_SCALE ''yes, sometimes'' = Some 4 \<and>
   map_answer_to_scale ''q11'' (PyStr '' Yes, Sometimes '') = Some 4 \<and>
   normalize_text (PyStr ''Always or never'') = ''always or never'' \<and>
   map_of PAY_MORE_SCALE ''always or never'' = None \<and>
   PAY_MORE_SCALE ! 5 = (''never'', 1) \<and>
   map_answer_to_scale ''q11'' (PyStr ''Always or never'') = Some 1 \<and>
   scale_for ''q22'' = Some LAUNCH_BEHAVIOR_SCALE \<and>
   map_of LAUNCH_BEHAVIOR_SCALE ''4'' = None \<and>
   py_float ''4'' = Some 4 \<and>
   map_answer_to_scale ''q22'' (PyStr ''4'') = Some 4"
proof -
  have s11: "scale_for ''q11'' = Some PAY_MORE_SCALE" by (simp add: scale_for_def)
  have s22: "scale_for ''q22'' = Some LAUNCH_BEHAVIOR_SCALE" by (simp add: scale_for_def)
  have n1: "normalize_text (PyStr '' Yes, Sometimes '') = ''yes, sometimes''"
    by (simp add: text_simps)
  have n2: "normalize_text (PyStr ''Always or never'') = ''always or never''"
    by (simp add: text_simps)
  have n3: "normalize_text (PyStr ''4'') = ''4''"
    by (simp add: text_simps)
  have m1: "map_of PAY_MORE_SCALE ''yes, sometimes'' = Some 4"
    by (simp add: PAY_MORE_SCALE_def)
  have m2: "map_of PAY_MORE_SCALE ''always or never'' = None"
    by (simp add: PAY_MORE_SCALE_def)
  have m3: "map_of LAUNCH_BEHAVIOR_SCALE ''4'' = None"
    by (simp add: LAUNCH_BEHAVIOR_SCALE_def)
  have at5: "PAY_MORE_SCALE ! 5 = (''never'', 1)" by (simp add: PAY_MORE_SCALE_def)
  have hit: "py_in (fst (PAY_MORE_SCALE ! 5)) ''always or never''"
    by (simp add: at5)
  have before: "\<forall>j<5. \<not> (py_in (fst (PAY_MORE_SCALE ! j)) ''always or never'' \<or>
                        py_in ''always or never'' (fst (PAY_MORE_SCALE ! j)))"
    by (simp add: PAY_MORE_SCALE_def eval_nat_numeral All_less_Suc)
  have nohit: "\<forall>k v. (k, v) \<in> set LAUNCH_BEHAVIOR_SCALE \<longrightarrow> \<not> (py_in k ''4'' \<or> py_in ''4'' k)"
    by (auto simp: LAUNCH_BEHAVIOR_SCALE_def)
  have f4: "py_float ''4'' = Some 4"
    by (simp add: py_float_def strip_def isspace_def ord_def split_sign_def parse_mantissa_def
        parse_exponent_def digitpart_def isdigit_def digit_value_def fl_int)
  have r1: "map_answer_to_scale ''q11'' (PyStr '' Yes, Sometimes '') = Some 4"
    using map_answer_to_scale_order[OF s11, of "PyStr '' Yes, Sometimes ''" "'' Yes, Sometimes ''"]
      m1 n1 by simp
  have "5 < length PAY_MORE_SCALE" by (simp add: PAY_MORE_SCALE_def)
  with m2 hit before
  have "map_answer_to_scale ''q11'' (PyStr ''Always or never'') =
          Some (real (snd (PAY_MORE_SCALE ! 5)))"
    using map_answer_to_scale_order[OF s11, of "PyStr ''Always or never''" "''Always or never''"]
    unfolding n2 by blast
  then have r2: "map_answer_to_scale ''q11'' (PyStr ''Always or never'') = Some 1"
    by (simp add: at5)
  have r3: "map_answer_to_scale ''q22'' (PyStr ''4'') = Some 4"
    using map_answer_to_scale_order[OF s22, of "PyStr ''4''" "''4''"] m3 nohit f4
    unfolding n3 by simp
  from s11 s22 n1 n2 m1 m2 m3 at5 f4 r1 r2 r3 show ?thesis by blast
qed

section \<open>Evaluating the rounding on literals\<close>

lemma fl_ge1:
  assumes "2 ^ k \<le> \<bar>x\<bar>" "\<bar>x\<bar> < 2 * 2 ^ k" "k \<le> 52"
  shows "fl x = of_int (py_round (x * 2 ^ (52 - k))) / 2 ^ (52 - k)"
proof -
  have a: "2 powi int k \<le> \<bar>x\<bar>" using assms(1) by simp
  have b: "\<bar>x\<bar> < 2 powi (int k + 1)" using assms(2) by (simp add: power_int_add)
  have c: "(2::real) powi (52 - int k) = 2 ^ (52 - k)"
    using assms(3) by (simp add: power_int_def nat_diff_distrib')
  have d: "(2::real) powi (int k - 52) = 1 / 2 ^ (52 - k)"
    using assms(3) by (simp add: power_int_def nat_diff_distrib' field_simps)
  show ?thesis using fl_eval[OF a b] by (simp add: c d)
qed

lemma fl_lt1:
  assumes "1 \<le> \<bar>x\<bar> * 2 ^ k" "\<bar>x\<bar> * 2 ^ k < 2"
  shows "fl x = of_int (py_round (x * 2 ^ (52 + k))) / 2 ^ (52 + k)"
proof -
  have a: "2 powi (- int k) \<le> \<bar>x\<bar>" using assms(1) by (simp add: power_int_minus field_simps)
  have "(2::real) powi (- int k + 1) = 2 powi (- int k) * 2 powi 1"
    by (rule power_int_add) simp
  also have "\<dots> = 2 / 2 ^ k"
    by (simp add: power_int_minus field_simps)
  finally have e: "(2::real) powi (- int k + 1) = 2 / 2 ^ k" .
  have "\<bar>x\<bar> < 2 / 2 ^ k" using assms(2) by (simp add: field_simps)
  then have b: "\<bar>x\<bar> < 2 powi (- int k + 1)" unfolding e .
  have "52 + int k = int (52 + k)" by simp
  then have c: "(2::real) powi (52 + int k) = 2 ^ (52 + k)"
    by (simp only: power_int_of_nat)
  have d: "(2::real) powi (- int k - 52) = 1 / 2 ^ (52 + k)"
    by (simp add: power_int_def nat_add_distrib field_simps)
  show ?thesis using fl_eval[OF a b] by (simp add: c d)
qed

lemmas fl_num =
  fl_lt1[where k=3] fl_lt1[where k=2] fl_lt1[where k=1]
  fl_ge1[where k=0] fl_ge1[where k=1] fl_ge1[where k=2] fl_ge1[where k=3] fl_ge1[where k=4]
  fl_ge1[where k=5] fl_ge1[where k=6] fl_ge1[where k=7] fl_ge1[where k=8]

lemma w6: "fl (6/10) = 5404319552844595 / 9007199254740992"
  by (simp add: fl_num py_round_def)
lemma w4: "fl (4/10) = 3602879701896397 / 9007199254740992"
  by (simp add: fl_num py_round_def)
lemma w7: "fl (7/10) = 3152519739159347 / 4503599627370496"
  by (simp add: fl_num py_round_def)
lemma w3: "fl (3/10) = 5404319552844595 / 18014398509481984"
  by (simp add: fl_num py_round_def)
lemma w5: "fl (5/10) = 1/2"
  by (simp add: fl_num py_round_def)
lemma w2: "fl (2/10) = 3602879701896397 / 18014398509481984"
  by (simp add: fl_num py_round_def)


section \<open>The anchor answer decides\<close>

lemma code_by_name_loop_key:
  "code_by_name_loop protos n = Some code \<Longrightarrow> code \<in> fst ` set protos"
  by (induction protos) (auto split: if_splits)

lemma name_in_text_loop_key:
  "name_in_text_loop protos s = Some code \<Longrightarrow> code \<in> fst ` set protos"
  by (induction protos) (auto split: if_splits)

lemma persona_code_known_iff:
  "persona_code_known code \<longleftrightarrow> code \<in> fst ` set PERSONA_PROTOTYPES"
  by (simp add: persona_code_known_def map_of_eq_None_iff)

lemma persona_keys:
  "fst ` set PERSONA_PROTOTYPES =
     set [''A'', ''B'', ''C'', ''D'', ''E'', ''F'', ''G'', ''H'', ''I'', ''J'']"
  by (simp add: PERSONA_PROTOTYPES_def)

lemma q20_to_code_known:
  assumes "q20_to_code raw = Some code"
  shows "persona_code_known code"
proof -
  let ?s = "normalize_text raw"
  from assms have
    "q20_rule1 ?s = Some code \<or> q20_rule2 ?s = Some code \<or>
     name_in_text_loop PERSONA_PROTOTYPES ?s = Some code \<or> q20_rule4 ?s = Some code"
    by (auto simp: q20_to_code_def Let_def split: if_splits option.splits)
  then show ?thesis
  proof (elim disjE)
    assume "q20_rule1 ?s = Some code"
    then show ?thesis by (auto simp: q20_rule1_def split: if_splits)
  next
    assume "q20_rule2 ?s = Some code"
    then have "\<exists>n. code_by_name_loop PERSONA_PROTOTYPES n = Some code"
      by (auto simp: q20_rule2_def code_by_persona_name_def split: option.splits if_splits)
    then show ?thesis using code_by_name_loop_key by (auto simp: persona_code_known_iff)
  next
    assume "name_in_text_loop PERSONA_PROTOTYPES ?s = Some code"
    then show ?thesis using name_in_text_loop_key by (simp add: persona_code_known_iff)
  next
    assume "q20_rule4 ?s = Some code"
    then show ?thesis by (auto simp: q20_rule4_def split: option.splits if_splits)
  qed
qed

lemma known_code_nonempty: "persona_code_known code \<Longrightarrow> code \<noteq> []"
  by (auto simp: persona_code_known_iff persona_keys)

lemma prototype_vector_length:
  "map_of PERSONA_PROTOTYPES code = Some proto \<Longrightarrow> length (vector proto) = length AXES"
  by (auto simp: PERSONA_PROTOTYPES_def AXES_def split: if_splits)

lemma anchor_code_resolved:
  assumes "row_data ''q20'' = Some raw" "truthy raw" "q20_to_code raw = Some code"
  shows "anchor_code row_data = Some code"
  using assms known_code_nonempty[OF q20_to_code_known[OF assms(3)]]
  by (simp add: anchor_code_def)

lemma anchor_code_unresolved:
  assumes "\<forall>raw. row_data ''q20'' = Some raw \<and> truthy raw \<longrightarrow> q20_to_code raw = None"
  shows "anchor_code row_data = None"
  using assms by (auto simp: anchor_code_def Let_def truthy_def split: option.splits)

text \<open>
  Claim C1. When the \<^verbatim>\<open>q20\<close> cell of a record is present, truthy and resolved to a
  persona code by \<^verbatim>\<open>_q20_to_code\<close> (the rules, in order: a single letter \<^verbatim>\<open>A\<close>..\<^verbatim>\<open>J\<close>;
  the first parenthesised text equal to a persona name; a persona name contained in the
  text, in the order \<^verbatim>\<open>A\<close>..\<^verbatim>\<open>J\<close>; the first stand-alone letter \<^verbatim>\<open>a\<close>..\<^verbatim>\<open>j\<close>), then
  \<^verbatim>\<open>determine_persona\<close> returns that code, the name of that persona, the six axes mapped
  to the components of its prototype vector, and the anchor flag \<^verbatim>\<open>True\<close>, whatever the
  other cells of the record are.
\<close>

theorem determine_persona_anchor:
  assumes "row_data ''q20'' = Some raw" and "truthy raw" and "q20_to_code raw = Some code"
  shows "\<exists>proto. map_of PERSONA_PROTOTYPES code = Some proto \<and>
           code \<in> set [''A'', ''B'', ''C'', ''D'', ''E'', ''F'', ''G'', ''H'', ''I'', ''J''] \<and>
           determine_persona row_data = Inr (code, name proto, zip AXES (vector proto), True) \<and>
           map fst (zip AXES (vector proto)) = AXES \<and>
           map snd (zip AXES (vector proto)) = vector proto"
proof -
  have known: "persona_code_known code" by (rule q20_to_code_known[OF assms(3)])
  then obtain proto where proto: "map_of PERSONA_PROTOTYPES code = Some proto"
    by (auto simp: persona_code_known_def)
  have len: "length (vector proto) = length AXES" by (rule prototype_vector_length[OF proto])
  have "determine_persona row_data = Inr (code, name proto, zip AXES (vector proto), True)"
    using anchor_code_resolved[of row_data raw code] assms proto len
    by (simp add: determine_persona_def vector_to_scores_def)
  moreover have "code \<in> set [''A'', ''B'', ''C'', ''D'', ''E'', ''F'', ''G'', ''H'', ''I'', ''J'']"
    using known unfolding persona_code_known_iff persona_keys .
  ultimately show ?thesis using proto len by auto
qed

theorem determine_persona_anchor_witness:
  "q20_to_code (PyStr ''I shop where it is easy. (Seamless Shoppers)'') = Some ''A'' \<and>
   determine_persona
     [''q8'' \<mapsto> PyStr ''completely'', ''q20'' \<mapsto> PyStr ''I shop where it is easy. (Seamless Shoppers)'']
   = Inr (''A'', ''Seamless Shoppers'',
          [(''Price'', 5/2), (''Quality'', 13/4), (''Ingredients'', 13/4),
           (''Social Pressure'', 5/2), (''Brand Image'', 5/2), (''Convenience'', 5)], True)"
proof -
  let ?raw = "PyStr ''I shop where it is easy. (Seamless Shoppers)''"
  let ?row = "[''q8'' \<mapsto> PyStr ''completely'', ''q20'' \<mapsto> ?raw]"
  have q: "q20_to_code ?raw = Some ''A''" by code_simp
  have r: "?row ''q20'' = Some ?raw" by simp
  have t: "truthy ?raw" by (simp add: truthy_def)
  have p: "map_of PERSONA_PROTOTYPES ''A'' =
             Some \<lparr>name = ''Seamless Shoppers'', vector = [5/2, 13/4, 13/4, 5/2, 5/2, 5]\<rparr>"
    by (simp add: PERSONA_PROTOTYPES_def)
  from determine_persona_anchor[of ?row ?raw "''A''"] r t p q show ?thesis
    by (auto simp: AXES_def)
qed

section \<open>Too few axes: the unknown persona\<close>

lemma all_axes_loop_length:
  "length (all_axes_loop row_data axes) =
     length (filter (\<lambda>axis. compute_axis_score row_data axis \<noteq> None) axes)"
  by (induction axes) (auto split: option.splits)

lemma all_axes_loop_keys:
  "map fst (all_axes_loop row_data axes) =
     filter (\<lambda>axis. compute_axis_score row_data axis \<noteq> None) axes"
  by (induction axes) (auto split: option.splits)

lemma all_axes_loop_lookup:
  "distinct axes \<Longrightarrow>
   map_of (all_axes_loop row_data axes) axis =
     (if axis \<in> set axes then compute_axis_score row_data axis else None)"
proof (induction axes)
  case Nil
  then show ?case by simp
next
  case (Cons a axes)
  then show ?case by (auto split: option.splits)
qed

lemma axes_distinct: "distinct AXES"
  by (simp add: AXES_def)

lemma compute_all_axes_lookup:
  "map_of (compute_all_axes row_data) axis =
     (if axis \<in> set AXES then compute_axis_score row_data axis else None)"
  unfolding compute_all_axes_def by (rule all_axes_loop_lookup[OF axes_distinct])

lemma compute_all_axes_length:
  "length (compute_all_axes row_data) =
     length (filter (\<lambda>axis. compute_axis_score row_data axis \<noteq> None) AXES)"
  unfolding compute_all_axes_def by (rule all_axes_loop_length)

text \<open>
  Claim C2. When a record has no resolvable \<^verbatim>\<open>q20\<close> anchor (the cell is missing, falsy,
  or not resolved by \<^verbatim>\<open>_q20_to_code\<close>) and fewer than 4 of the 6 axes get a score,
  \<^verbatim>\<open>determine_persona\<close> returns the code \<^verbatim>\<open>''\<close>, the name \<^verbatim>\<open>'Unknown'\<close>, the scores that
  were computed (each scored axis with its score, nothing else) and the anchor flag
  \<^verbatim>\<open>False\<close>; it returns, it does not raise.
\<close>

theorem determine_persona_unknown:
  assumes "\<forall>raw. row_data ''q20'' = Some raw \<and> truthy raw \<longrightarrow> q20_to_code raw = None"
    and "length (filter (\<lambda>axis. compute_axis_score row_data axis \<noteq> None) AXES) < 4"
  shows "determine_persona row_data = Inr ([], ''Unknown'', compute_all_axes row_data, False) \<and>
         (\<forall>axis. map_of (compute_all_axes row_data) axis =
                   (if axis \<in> set AXES then compute_axis_score row_data axis else None))"
proof -
  have "anchor_code row_data = None" using assms(1) by (rule anchor_code_unresolved[of row_data])
  moreover have "length (compute_all_axes row_data) < 4"
    using assms(2) by (simp add: compute_all_axes_length)
  ultimately have "determine_persona row_data =
      Inr ([], ''Unknown'', compute_all_axes row_data, False)"
    by (simp add: determine_persona_def)
  then show ?thesis by (simp add: compute_all_axes_lookup)
qed

lemmas axis_eval_simps =
  compute_axis_score_def AXIS_WEIGHTS_def map_answer_to_scale_def scale_for_def
  in_scale_range_def IMPORTANCE_SCALE_def FREQUENCY_SCALE_def PAY_MORE_SCALE_def
  text_simps w2 w3 w4 w5 w6 w7 fl_num py_round_def round_to_quarter_def

theorem determine_persona_unknown_witness:
  "q20_to_code (PyStr ''no idea'') = None \<and>
   compute_axis_score
     [''q8'' \<mapsto> PyStr ''completely'', ''q9'' \<mapsto> PyStr ''always'', ''q20'' \<mapsto> PyStr ''no idea'']
     ''Price'' = Some 5 \<and>
   determine_persona
     [''q8'' \<mapsto> PyStr ''completely'', ''q9'' \<mapsto> PyStr ''always'', ''q20'' \<mapsto> PyStr ''no idea'']
   = Inr ([], ''Unknown'', [(''Price'', 5)], False)"
proof -
  let ?row = "[''q8'' \<mapsto> PyStr ''completely'', ''q9'' \<mapsto> PyStr ''always'',
               ''q20'' \<mapsto> PyStr ''no idea'']"
  have q: "q20_to_code (PyStr ''no idea'') = None" by code_simp
  have anchor: "\<forall>raw. ?row ''q20'' = Some raw \<and> truthy raw \<longrightarrow> q20_to_code raw = None"
    using q by simp
  have price: "compute_axis_score ?row ''Price'' = Some 5"
    by (simp add: axis_eval_simps)
  have others: "compute_axis_score ?row ''Quality'' = None"
    "compute_axis_score ?row ''Ingredients'' = None"
    "compute_axis_score ?row ''Social Pressure'' = None"
    "compute_axis_score ?row ''Brand Image'' = None"
    "compute_axis_score ?row ''Convenience'' = None"
    by (simp_all add: axis_eval_simps)
  have few: "length (filter (\<lambda>axis. compute_axis_score ?row axis \<noteq> None) AXES) < 4"
    by (simp add: AXES_def price others)
  have all: "compute_all_axes ?row = [(''Price'', 5)]"
    by (simp add: compute_all_axes_def AXES_def price others)
  from determine_persona_unknown[of ?row] anchor few
  have "determine_persona ?row = Inr ([], ''Unknown'', compute_all_axes ?row, False)"
    by blast
  with q price all show ?thesis by simp
qed

section \<open>Rounding is idempotent and commutes with scaling by a power of two\<close>

lemma py_round_abs_le:
  assumes "\<bar>x\<bar> \<le> of_int n"
  shows "\<bar>py_round x\<bar> \<le> n"
proof -
  have "of_int (- n) \<le> x" "x \<le> of_int n" using assms by auto
  from py_round_between[OF this] show ?thesis by auto
qed

lemma fl_idem: "fl (fl x) = fl x"
proof (cases "x = 0")
  case True then show ?thesis by (simp add: fl_zero)
next
  case False
  define e where "e = \<lfloor>log 2 \<bar>x\<bar>\<rfloor>"
  define m where "m = py_round (x * 2 powi (52 - e))"
  have hi: "\<bar>x\<bar> < 2 powi (e + 1)" using fl_exponent(2)[OF False] by (simp add: e_def)
  have flx: "fl x = of_int m * 2 powi (e - 52)"
    using False by (simp add: fl_def e_def m_def Let_def)
  have "\<bar>x * 2 powi (52 - e)\<bar> = \<bar>x\<bar> * 2 powi (52 - e)" by (simp add: abs_mult)
  also have "\<dots> \<le> 2 powi (e + 1) * 2 powi (52 - e)"
    using hi by (intro mult_right_mono) simp_all
  also have "\<dots> = 2 powi ((e + 1) + (52 - e))" by (rule power_int_add[symmetric]) simp
  also have "\<dots> = real_of_int (2 ^ 53)" by simp
  finally have "\<bar>m\<bar> \<le> 2 ^ 53" unfolding m_def by (rule py_round_abs_le)
  have "(2::real) powi 53 * 2 powi (e - 52) = 2 powi (53 + (e - 52))"
    by (rule power_int_add[symmetric]) simp
  also have "53 + (e - 52) = e + 1" by simp
  finally have top: "9007199254740992 * (2::real) powi (e - 52) = 2 powi (e + 1)" by simp
  from \<open>\<bar>m\<bar> \<le> 2 ^ 53\<close>
  consider "\<bar>m\<bar> < 2 ^ 53" | "m = 2 ^ 53" | "m = - (2 ^ 53)" by linarith
  then show ?thesis
  proof cases
    case 1
    then show ?thesis unfolding flx by (rule fl_exact)
  next
    case 2
    have "fl x = of_int 1 * 2 powi (e + 1)"
      unfolding flx 2 using top by simp
    moreover have "fl (of_int 1 * 2 powi (e + 1)) = of_int 1 * 2 powi (e + 1)"
      by (rule fl_exact) simp
    ultimately show ?thesis by simp
  next
    case 3
    have "fl x = of_int (- 1) * 2 powi (e + 1)"
      unfolding flx 3 using top by simp
    moreover have "fl (of_int (- 1) * 2 powi (e + 1)) = of_int (- 1) * 2 powi (e + 1)"
      by (rule fl_exact) simp
    ultimately show ?thesis by simp
  qed
qed

lemma fl_scale: "fl (x * 2 powi n) = fl x * 2 powi n"
proof (cases "x = 0")
  case True then show ?thesis by (simp add: fl_zero)
next
  case False
  define e where "e = \<lfloor>log 2 \<bar>x\<bar>\<rfloor>"
  have lo: "2 powi e \<le> \<bar>x\<bar>" and hi: "\<bar>x\<bar> < 2 powi (e + 1)"
    using fl_exponent[OF False] by (simp_all add: e_def)
  have flx: "fl x = of_int (py_round (x * 2 powi (52 - e))) * 2 powi (e - 52)"
    by (rule fl_eval[OF lo hi])
  have a: "2 powi (e + n) \<le> \<bar>x * 2 powi n\<bar>"
    using lo by (simp add: abs_mult power_int_add)
  have b: "\<bar>x * 2 powi n\<bar> < 2 powi (e + n + 1)"
  proof -
    have "\<bar>x * 2 powi n\<bar> = \<bar>x\<bar> * 2 powi n" by (simp add: abs_mult)
    also have "\<dots> < 2 powi (e + 1) * 2 powi n" using hi by simp
    also have "\<dots> = 2 powi (e + 1 + n)" by (rule power_int_add[symmetric]) simp
    finally show ?thesis by (simp add: add.commute add.left_commute)
  qed
  have c: "x * 2 powi n * 2 powi (52 - (e + n)) = x * 2 powi (52 - e)"
  proof -
    have "(2::real) powi n * 2 powi (52 - (e + n)) = 2 powi (n + (52 - (e + n)))"
      by (rule power_int_add[symmetric]) simp
    then show ?thesis by (simp add: mult.assoc)
  qed
  have d: "(2::real) powi (e + n - 52) = 2 powi (e - 52) * 2 powi n"
  proof -
    have "(2::real) powi (e - 52) * 2 powi n = 2 powi ((e - 52) + n)"
      by (rule power_int_add[symmetric]) simp
    then show ?thesis by (simp add: algebra_simps)
  qed
  show ?thesis unfolding fl_eval[OF a b] c d flx by simp
qed

lemma fl_times4: "fl (fl x * 4) = fl x * 4"
  using fl_scale[of "fl x" 2] by (simp add: fl_idem)

section \<open>Every mapped answer lies in the scale\<close>

lemma in_scale_range_bounds: "in_scale_range val = Some v \<Longrightarrow> 1 \<le> v \<and> v \<le> 5"
  by (auto simp: in_scale_range_def split: if_splits)

lemma scale_values:
  assumes "scale_for q = Some scale" "(k, n) \<in> set scale"
  shows "1 \<le> n \<and> n \<le> 5"
proof -
  from assms(1) have "scale \<in> {IMPORTANCE_SCALE, FREQUENCY_SCALE, PAY_MORE_SCALE,
      LAUNCH_BEHAVIOR_SCALE, INFLUENCER_SCALE, INCOME_REACTION_SCALE}"
    by (auto simp: scale_for_def split: if_splits)
  with assms(2) show ?thesis
    by (auto simp: IMPORTANCE_SCALE_def FREQUENCY_SCALE_def PAY_MORE_SCALE_def
        LAUNCH_BEHAVIOR_SCALE_def INFLUENCER_SCALE_def INCOME_REACTION_SCALE_def)
qed

lemma loose_match_mem: "loose_match scale t = Some n \<Longrightarrow> \<exists>k. (k, n) \<in> set scale"
  by (induction scale) (auto split: if_splits)

lemma map_answer_to_scale_bounds:
  assumes "map_answer_to_scale q a = Some v"
  shows "1 \<le> v \<and> v \<le> 5"
proof (cases a)
  case (PyNum val s)
  with assms show ?thesis by (simp add: map_answer_to_scale_def in_scale_range_bounds)
next
  case PyNone
  show ?thesis
  proof (cases "scale_for q")
    case None
    with assms PyNone show ?thesis
      by (auto simp: map_answer_to_scale_def numeric_fallback_def Let_def
          split: option.splits dest: in_scale_range_bounds)
  next
    case (Some scale)
    from assms PyNone Some have
      "(\<exists>n k. (k, n) \<in> set scale \<and> v = real n) \<or> numeric_fallback (normalize_text a) = Some v"
      by (auto simp: map_answer_to_scale_def Let_def split: option.splits
          dest: map_of_SomeD loose_match_mem)
    then show ?thesis
      using scale_values[OF Some]
      by (auto simp: numeric_fallback_def split: option.splits dest: in_scale_range_bounds)
  qed
next
  case (PyStr s)
  show ?thesis
  proof (cases "scale_for q")
    case None
    with assms PyStr show ?thesis
      by (auto simp: map_answer_to_scale_def numeric_fallback_def Let_def
          split: option.splits dest: in_scale_range_bounds)
  next
    case (Some scale)
    from assms PyStr Some have
      "(\<exists>n k. (k, n) \<in> set scale \<and> v = real n) \<or> numeric_fallback (normalize_text a) = Some v"
      by (auto simp: map_answer_to_scale_def Let_def split: option.splits
          dest: map_of_SomeD loose_match_mem)
    then show ?thesis
      using scale_values[OF Some]
      by (auto simp: numeric_fallback_def split: option.splits dest: in_scale_range_bounds)
  qed
qed

section \<open>The weighted mean stays within the scale\<close>

lemma axis_step_lower:
  assumes tw: "0 \<le> tw" and w: "0 < w" and v: "1 \<le> v" and c0: "0 \<le> c" and c1: "c \<le> 1"
    and inv: "c * tw \<le> ws"
  shows "999 / 1000 * c * fl (tw + w) \<le> fl (ws + fl (v * w))"
proof -
  define a where "a = c * tw"
  define b where "b = c * w"
  define y where "y = c * fl (tw + w)"
  define p where "p = fl (v * w)"
  define f where "f = fl (ws + p)"
  have "w \<le> v * w" using v w by simp
  then have vw: "0 \<le> v * w" using w by linarith
  have "v * w * (1 - 1 / 2 ^ 53) \<le> p" unfolding p_def by (rule fl_lower[OF vw])
  moreover have "w * (1 - 1 / 2 ^ 53) \<le> v * w * (1 - 1 / 2 ^ 53)"
    using \<open>w \<le> v * w\<close> by (intro mult_right_mono) simp_all
  ultimately have p: "w * (1 - 1 / 2 ^ 53) \<le> p" by linarith
  have p0: "0 \<le> p" unfolding p_def by (rule fl_nonneg[OF vw])
  have A: "0 \<le> a" "a \<le> ws" using c0 tw inv by (simp_all add: a_def)
  have B: "0 \<le> b" "b \<le> w" using c0 c1 w by (simp_all add: b_def mult_left_le_one_le)
  have s0: "0 \<le> ws + p" using A p0 by linarith
  have fs: "(ws + p) * (1 - 1 / 2 ^ 53) \<le> f" unfolding f_def by (rule fl_lower[OF s0])
  have t0: "0 \<le> tw + w" using tw w by simp
  have "fl (tw + w) \<le> (tw + w) * (1 + 1 / 2 ^ 53)" by (rule fl_upper[OF t0])
  then have "c * fl (tw + w) \<le> c * ((tw + w) * (1 + 1 / 2 ^ 53))"
    using c0 by (rule mult_left_mono)
  also have "\<dots> = (a + b) * (1 + 1 / 2 ^ 53)" by (simp add: a_def b_def algebra_simps)
  finally have Y: "y \<le> (a + b) * (1 + 1 / 2 ^ 53)" unfolding y_def .
  have "999 / 1000 * y \<le> f" using Y fs p A B by simp
  then show ?thesis by (simp add: y_def f_def p_def)
qed

lemma axis_step_upper:
  assumes tw: "0 \<le> tw" and w: "0 < w" and v1: "1 \<le> v" and v5: "v \<le> 5" and C1: "1 \<le> C"
    and ws0: "0 \<le> ws" and inv: "ws \<le> 5 * C * tw"
  shows "fl (ws + fl (v * w)) \<le> 5 * (1001 / 1000 * C) * fl (tw + w)"
proof -
  define a where "a = C * tw"
  define b where "b = C * w"
  define y where "y = C * fl (tw + w)"
  define p where "p = fl (v * w)"
  define f where "f = fl (ws + p)"
  have vw: "0 \<le> v * w" using v1 w by simp
  have "v * w \<le> 5 * w" using v5 w by simp
  then have "v * w * (1 + 1 / 2 ^ 53) \<le> 5 * w * (1 + 1 / 2 ^ 53)"
    by (rule mult_right_mono) simp
  moreover have "p \<le> v * w * (1 + 1 / 2 ^ 53)" unfolding p_def by (rule fl_upper[OF vw])
  ultimately have p: "p \<le> 5 * w * (1 + 1 / 2 ^ 53)" by linarith
  have p0: "0 \<le> p" unfolding p_def by (rule fl_nonneg[OF vw])
  have A: "0 \<le> a" "ws \<le> 5 * a" using C1 tw inv by (simp_all add: a_def algebra_simps)
  have B: "w \<le> b" using C1 w by (simp add: b_def)
  have s0: "0 \<le> ws + p" using ws0 p0 by simp
  have fs: "f \<le> (ws + p) * (1 + 1 / 2 ^ 53)" unfolding f_def by (rule fl_upper[OF s0])
  have t0: "0 \<le> tw + w" using tw w by simp
  have "(tw + w) * (1 - 1 / 2 ^ 53) \<le> fl (tw + w)" by (rule fl_lower[OF t0])
  then have "C * ((tw + w) * (1 - 1 / 2 ^ 53)) \<le> C * fl (tw + w)"
    using C1 by (intro mult_left_mono) simp_all
  moreover have "C * ((tw + w) * (1 - 1 / 2 ^ 53)) = (a + b) * (1 - 1 / 2 ^ 53)"
    by (simp add: a_def b_def algebra_simps)
  ultimately have Y: "(a + b) * (1 - 1 / 2 ^ 53) \<le> y" unfolding y_def by simp
  have "f \<le> 5 * (1001 / 1000) * y" using Y fs p A B w by simp
  then show ?thesis by (simp add: y_def f_def p_def)
qed

lemma axis_loop_bounds:
  assumes "\<forall>qw \<in> set weights. 0 < snd qw"
    and "0 \<le> tw" and "0 < c" and "c \<le> 1" and "1 \<le> C"
    and "c * tw \<le> ws" and "ws \<le> 5 * C * tw"
  shows "\<exists>ws' tw'. axis_loop row_data weights (ws, tw) = (ws', tw') \<and> 0 \<le> tw' \<and>
           (999 / 1000) ^ length weights * c * tw' \<le> ws' \<and>
           ws' \<le> 5 * ((1001 / 1000) ^ length weights * C) * tw'"
  using assms
proof (induction weights arbitrary: ws tw c C)
  case Nil
  then show ?case by simp
next
  case (Cons qw weights)
  obtain q w where qw: "qw = (q, w)" by (cases qw)
  have w: "0 < w" using Cons.prems(1) qw by simp
  have rest: "\<forall>qw \<in> set weights. 0 < snd qw" using Cons.prems(1) by simp
  have ws0: "0 \<le> ws" 
  proof -
    have "0 \<le> c * tw" using Cons.prems(2,3) by simp
    with Cons.prems(6) show ?thesis by linarith
  qed
  have c': "0 < 999 / 1000 * c" "999 / 1000 * c \<le> 1" "1 \<le> 1001 / 1000 * C"
    using Cons.prems(3,4,5) by simp_all
  have pw: "(999 / 1000) ^ length weights * (999 / 1000 * c) = (999 / 1000) ^ length (qw # weights) * c"
    "(1001 / 1000) ^ length weights * (1001 / 1000 * C) = (1001 / 1000) ^ length (qw # weights) * C"
    for c C :: real by simp_all
  consider (skip) "axis_loop row_data (qw # weights) (ws, tw) = axis_loop row_data weights (ws, tw)"
    | (hit) v where "map_answer_to_scale (lower q) (the (row_data (lower q))) = Some v"
        "axis_loop row_data (qw # weights) (ws, tw) =
           axis_loop row_data weights (fl (ws + fl (v * w)), fl (tw + w))"
  proof (cases "row_data (lower q)")
    case None
    then show ?thesis using skip by (simp add: qw Let_def)
  next
    case (Some cell)
    show ?thesis
    proof (cases "map_answer_to_scale (lower q) cell")
      case None
      then show ?thesis using skip Some by (simp add: qw Let_def)
    next
      case (Some v)
      then show ?thesis using hit[of v] \<open>row_data (lower q) = Some cell\<close>
        by (simp add: qw Let_def)
    qed
  qed
  then show ?case
  proof cases
    case skip
    have "0 \<le> c * tw" using Cons.prems(2,3) by simp
    moreover have "999 / 1000 * c * tw = 999 / 1000 * (c * tw)" by simp
    ultimately have lo: "999 / 1000 * c * tw \<le> ws" using Cons.prems(6) by linarith
    have "0 \<le> C * tw" using Cons.prems(2,5) by simp
    moreover have "5 * (1001 / 1000 * C) * tw = 1001 / 200 * (C * tw)"
      "5 * C * tw = 5 * (C * tw)" by simp_all
    ultimately have hi: "ws \<le> 5 * (1001 / 1000 * C) * tw"
      using Cons.prems(7) by linarith
    from Cons.IH[OF rest Cons.prems(2) c' lo hi] show ?thesis
      unfolding skip pw .
  next
    case hit
    have v: "1 \<le> v" "v \<le> 5" using map_answer_to_scale_bounds[OF hit(1)] by simp_all
    have t0: "0 \<le> fl (tw + w)" using Cons.prems(2) w by (intro fl_nonneg) simp
    have lo: "999 / 1000 * c * fl (tw + w) \<le> fl (ws + fl (v * w))"
      using Cons.prems(2) w v(1) Cons.prems(3,4,6) by (intro axis_step_lower) simp_all
    have hi: "fl (ws + fl (v * w)) \<le> 5 * (1001 / 1000 * C) * fl (tw + w)"
      using Cons.prems(2) w v Cons.prems(5) ws0 Cons.prems(7) by (intro axis_step_upper) simp_all
    from Cons.IH[OF rest t0 c' lo hi] show ?thesis
      unfolding hit(2) pw .
  qed
qed

lemma axis_loop_zero:
  assumes "\<forall>qw \<in> set weights. 0 < snd qw" "0 < tw"
  shows "0 < snd (axis_loop row_data weights (ws, tw))"
  using assms
proof (induction weights arbitrary: ws tw)
  case Nil
  then show ?case by simp
next
  case (Cons qw weights)
  obtain q w where qw: "qw = (q, w)" by (cases qw)
  have w: "0 < w" using Cons.prems(1) qw by simp
  have "0 < fl (tw + w)" using Cons.prems(2) w by (intro fl_pos) simp
  then show ?case using Cons qw by (auto simp: Let_def split: option.splits)
qed

section \<open>Axis scores are quarter steps between 1 and 5\<close>

lemma axis_weights_positive:
  assumes "map_of AXIS_WEIGHTS axis_name = Some weights"
  shows "(\<forall>qw \<in> set weights. 0 < snd qw) \<and> length weights \<le> 3"
proof -
  have pos: "0 < fl (6/10)" "0 < fl (4/10)" "0 < fl (7/10)" "0 < fl (3/10)" "0 < fl (5/10)"
    "0 < fl (2/10)" by (simp_all add: fl_pos)
  from assms show ?thesis
    unfolding AXIS_WEIGHTS_def using pos by (auto split: if_splits)
qed

lemma axis_score_shape:
  assumes weights: "map_of AXIS_WEIGHTS axis_name = Some weights"
    and sums: "axis_loop row_data weights (0, 0) = (weighted_sum, total_weight)"
    and nonzero: "total_weight \<noteq> 0"
  shows "4 \<le> py_round (4 * fl (weighted_sum / total_weight)) \<and>
         py_round (4 * fl (weighted_sum / total_weight)) \<le> 20 \<and>
         compute_axis_score row_data axis_name =
           Some (of_int (py_round (4 * fl (weighted_sum / total_weight))) / 4)"
proof -
  define n where "n = length weights"
  define q where "q = weighted_sum / total_weight"
  define k where "k = py_round (4 * fl q)"
  have wpos: "\<forall>qw \<in> set weights. 0 < snd qw" and n3: "n \<le> 3"
    using axis_weights_positive[OF weights] by (simp_all add: n_def)
  have "\<exists>ws' tw'. axis_loop row_data weights (0, 0) = (ws', tw') \<and> 0 \<le> tw' \<and>
           (999 / 1000) ^ length weights * 1 * tw' \<le> ws' \<and>
           ws' \<le> 5 * ((1001 / 1000) ^ length weights * 1) * tw'"
    by (rule axis_loop_bounds[OF wpos]) simp_all
  with sums have tw0: "0 \<le> total_weight"
    and lo: "(999 / 1000) ^ n * total_weight \<le> weighted_sum"
    and hi: "weighted_sum \<le> 5 * (1001 / 1000) ^ n * total_weight"
    by (simp_all add: n_def)
  have tw: "0 < total_weight" using tw0 nonzero by simp
  have "(999 / 1000 :: real) ^ 3 \<le> (999 / 1000) ^ n"
    using n3 by (intro power_decreasing) simp_all
  moreover have "(999 / 1000) ^ n \<le> q"
    unfolding q_def using lo tw by (simp add: pos_le_divide_eq)
  ultimately have qlo: "997 / 1000 \<le> q" by (simp add: power3_eq_cube)
  have "(1001 / 1000 :: real) ^ n \<le> (1001 / 1000) ^ 3"
    using n3 by (intro power_increasing) simp_all
  moreover have "q \<le> 5 * (1001 / 1000) ^ n"
    unfolding q_def using hi tw by (simp add: pos_divide_le_eq)
  ultimately have qhi: "q \<le> 5016 / 1000" by (simp add: power3_eq_cube)
  have q0: "0 \<le> q" using qlo by simp
  have slo: "996 / 1000 \<le> fl q" using fl_lower[OF q0] qlo by simp
  have shi: "fl q \<le> 5017 / 1000" using fl_upper[OF q0] qhi by simp
  have err: "\<bar>of_int k - 4 * fl q\<bar> \<le> 1 / 2" unfolding k_def by (rule py_round_err)
  have "3 < real_of_int k" using err slo by linarith
  then have k4: "4 \<le> k" by linarith
  have "real_of_int k < 21" using err shi by linarith
  then have k20: "k \<le> 20" by linarith
  have "fl (of_int k / 4) = of_int k / 4"
  proof (rule fl_dyadic[of _ 2])
    show "real_of_int k / 4 * 2 ^ 2 \<in> \<int>" by simp
    have "\<bar>real_of_int k\<bar> \<le> 20" using k4 k20 by simp
    then show "\<bar>real_of_int k / 4\<bar> * 2 ^ 2 < 2 ^ 53" by simp
  qed
  moreover have "fl (fl q * 4) = 4 * fl q" using fl_times4[of q] by (simp add: mult.commute)
  ultimately have "compute_axis_score row_data axis_name = Some (of_int k / 4)"
    using weights sums nonzero
    by (simp add: compute_axis_score_def round_to_quarter_def k_def q_def)
  with k4 k20 show ?thesis by (simp add: k_def q_def)
qed

lemma compute_axis_score_cases:
  assumes "compute_axis_score row_data axis_name = Some v"
  obtains weights weighted_sum total_weight where
    "map_of AXIS_WEIGHTS axis_name = Some weights"
    "axis_loop row_data weights (0, 0) = (weighted_sum, total_weight)"
    "total_weight \<noteq> 0"
  using assms
  by (auto simp: compute_axis_score_def Let_def split: option.splits prod.splits if_splits)

lemma axis_score_quarter_step:
  assumes "compute_axis_score row_data axis_name = Some v"
  shows "\<exists>k::int. 4 \<le> k \<and> k \<le> 20 \<and> v = of_int k / 4"
proof -
  from assms obtain weights weighted_sum total_weight where
    w: "map_of AXIS_WEIGHTS axis_name = Some weights"
    and s: "axis_loop row_data weights (0, 0) = (weighted_sum, total_weight)"
    and t: "total_weight \<noteq> 0"
    by (rule compute_axis_score_cases)
  define k where "k = py_round (4 * fl (weighted_sum / total_weight))"
  from axis_score_shape[OF w s t] assms have "4 \<le> k" "k \<le> 20" "v = of_int k / 4"
    by (simp_all add: k_def)
  then show ?thesis by blast
qed

text \<open>
  Claim C4. For every record and every axis, a score that \<^verbatim>\<open>compute_axis_score\<close>
  returns lies in the closed interval \<open>[1, 5]\<close> and is an integer multiple of \<open>0.25\<close>,
  whatever the raw cells are (numbers anywhere in \<open>[1, 5]\<close> included).
\<close>

theorem compute_axis_score_range:
  assumes "compute_axis_score row_data axis_name = Some v"
  shows "1 \<le> v \<and> v \<le> 5 \<and> (\<exists>k::int. v = of_int k * (1 / 4))"
proof -
  from axis_score_quarter_step[OF assms] obtain k :: int where
    k: "4 \<le> k" "k \<le> 20" and v: "v = of_int k / 4" by blast
  have "1 \<le> v" "v \<le> 5" using k unfolding v by simp_all
  moreover have "\<exists>k::int. v = of_int k * (1 / 4)" using v by auto
  ultimately show ?thesis by simp
qed

theorem compute_axis_score_range_witness:
  "compute_axis_score [''q14'' \<mapsto> PyNum (15/4) ''3.75'', ''q15'' \<mapsto> PyStr ''2''] ''Social Pressure''
     = Some 3 \<and>
   (1::real) \<le> 3 \<and> (3::real) \<le> 5 \<and> (\<exists>k::int. (3::real) = of_int k * (1 / 4))"
proof -
  have "compute_axis_score [''q14'' \<mapsto> PyNum (15/4) ''3.75'', ''q15'' \<mapsto> PyStr ''2'']
          ''Social Pressure'' = Some 3"
    by (simp add: axis_eval_simps numeric_fallback_def py_float_def split_sign_def
        parse_mantissa_def parse_exponent_def digitpart_def digit_value_def fl_int)
  with compute_axis_score_range[of _ _ 3] show ?thesis by blast
qed

section \<open>Axis scores: ties go to the even quarter step\<close>

lemma py_round_tie_even: "\<bar>of_int (py_round x) - x\<bar> = 1 / 2 \<Longrightarrow> even (py_round x)"
  unfolding py_round_def Let_def by (auto split: if_splits)

lemma py_round_unique:
  assumes "\<bar>of_int k - x\<bar> \<le> 1 / 2" and "\<bar>of_int k - x\<bar> = 1 / 2 \<longrightarrow> even k"
  shows "k = py_round x"
proof -
  define m where "m = py_round x"
  have m: "\<bar>of_int m - x\<bar> \<le> 1 / 2" unfolding m_def by (rule py_round_err)
  have me: "\<bar>of_int m - x\<bar> = 1 / 2 \<longrightarrow> even m" unfolding m_def using py_round_tie_even by blast
  have "\<bar>real_of_int k - of_int m\<bar> \<le> 1" using assms(1) m by linarith
  then have "\<bar>k - m\<bar> \<le> 1" by linarith
  then consider "k = m" | "k = m + 1" | "k = m - 1" by linarith
  then show ?thesis
  proof cases
    case 1 then show ?thesis by (simp add: m_def)
  next
    case 2
    then have "\<bar>of_int k - x\<bar> = 1 / 2" "\<bar>of_int m - x\<bar> = 1 / 2" using assms(1) m by auto
    then have "even k" "even m" using assms(2) me by auto
    with 2 show ?thesis by simp
  next
    case 3
    then have "\<bar>of_int k - x\<bar> = 1 / 2" "\<bar>of_int m - x\<bar> = 1 / 2" using assms(1) m by auto
    then have "even k" "even m" using assms(2) me by auto
    with 3 show ?thesis by simp
  qed
qed


text \<open>
  Claim C5, as stated: whenever the total matched weight is not zero,
  \<^verbatim>\<open>compute_axis_score\<close> is \<^verbatim>\<open>weighted_sum / total_weight\<close> rounded to the nearest
  \<open>0.25\<close>, an exact half of \<open>score * 4\<close> going away from zero. It fails on the record
  \<^verbatim>\<open>{'q14': 1.125}\<close> and the axis \<^verbatim>\<open>Social Pressure\<close>: the sums are \<open>0.5625\<close> and \<open>0.5\<close>,
  the score is \<open>1.125\<close>, \<open>score * 4\<close> is the exact half \<open>4.5\<close>, and \<^verbatim>\<open>round\<close> gives \<open>4\<close>,
  so the code returns \<open>1.0\<close> where rounding away from zero gives \<open>1.25\<close>. Every value
  on the way is exact in binary.
\<close>

theorem compute_axis_score_half_away_counterexample:
  "axis_loop [''q14'' \<mapsto> PyNum (9/8) ''1.125'']
     [(''Q14'', fl (5/10)), (''Q15'', fl (3/10)), (''Q23'', fl (2/10))] (0, 0) = (9/16, 1/2) \<and>
   fl ((9/16) / (1/2)) * 4 = 9/2 \<and>
   compute_axis_score [''q14'' \<mapsto> PyNum (9/8) ''1.125''] ''Social Pressure'' = Some 1 \<and>
   spec_axis_score [''q14'' \<mapsto> PyNum (9/8) ''1.125''] ''Social Pressure'' = Some (5/4) \<and>
   compute_axis_score [''q14'' \<mapsto> PyNum (9/8) ''1.125''] ''Social Pressure'' \<noteq>
     spec_axis_score [''q14'' \<mapsto> PyNum (9/8) ''1.125''] ''Social Pressure''"
proof -
  have loop: "axis_loop [''q14'' \<mapsto> PyNum (9/8) ''1.125'']
     [(''Q14'', fl (5/10)), (''Q15'', fl (3/10)), (''Q23'', fl (2/10))] (0, 0) = (9/16, 1/2)"
    by (simp add: axis_eval_simps)
  have q: "fl ((9/16) / (1/2)) * 4 = 9/2" by (simp add: fl_num py_round_def)
  have c: "compute_axis_score [''q14'' \<mapsto> PyNum (9/8) ''1.125''] ''Social Pressure'' = Some 1"
    by (simp add: axis_eval_simps)
  have s: "spec_axis_score [''q14'' \<mapsto> PyNum (9/8) ''1.125''] ''Social Pressure'' = Some (5/4)"
    by (simp add: spec_axis_score_def round_half_away_from_zero_def axis_eval_simps)
  from loop q c s show ?thesis by simp
qed

text \<open>
  Claim C5, amended: whenever the total matched weight is not zero,
  \<^verbatim>\<open>compute_axis_score\<close> is \<open>k / 4\<close> for the integer \<open>k\<close> nearest to \<open>score * 4\<close>, where
  \<open>score\<close> is the float quotient \<^verbatim>\<open>weighted_sum / total_weight\<close>; when \<open>score * 4\<close> lies
  exactly halfway between two integers, \<open>k\<close> is the even one. These two conditions
  determine \<open>k\<close>.
\<close>

theorem compute_axis_score_half_even:
  assumes "map_of AXIS_WEIGHTS axis_name = Some weights"
    and "axis_loop row_data weights (0, 0) = (weighted_sum, total_weight)"
    and "total_weight \<noteq> 0"
  shows "\<exists>k::int.
           compute_axis_score row_data axis_name = Some (of_int k / 4) \<and>
           \<bar>of_int k - fl (weighted_sum / total_weight) * 4\<bar> \<le> 1 / 2 \<and>
           (\<bar>of_int k - fl (weighted_sum / total_weight) * 4\<bar> = 1 / 2 \<longrightarrow> even k) \<and>
           (\<forall>j::int. \<bar>of_int j - fl (weighted_sum / total_weight) * 4\<bar> \<le> 1 / 2 \<and>
                     (\<bar>of_int j - fl (weighted_sum / total_weight) * 4\<bar> = 1 / 2 \<longrightarrow> even j)
                     \<longrightarrow> j = k)"
proof -
  define x where "x = fl (weighted_sum / total_weight) * 4"
  define k where "k = py_round x"
  have x: "4 * fl (weighted_sum / total_weight) = x" by (simp add: x_def)
  have "compute_axis_score row_data axis_name = Some (of_int k / 4)"
    using axis_score_shape[OF assms] unfolding x k_def by simp
  moreover have "\<bar>of_int k - x\<bar> \<le> 1 / 2" unfolding k_def by (rule py_round_err)
  moreover have "\<bar>of_int k - x\<bar> = 1 / 2 \<longrightarrow> even k"
    unfolding k_def using py_round_tie_even by blast
  moreover have "\<forall>j::int. \<bar>of_int j - x\<bar> \<le> 1 / 2 \<and> (\<bar>of_int j - x\<bar> = 1 / 2 \<longrightarrow> even j)
                   \<longrightarrow> j = k"
    unfolding k_def using py_round_unique by blast
  ultimately show ?thesis unfolding x_def by blast
qed

theorem compute_axis_score_half_even_witness:
  "map_of AXIS_WEIGHTS ''Social Pressure'' =
     Some [(''Q14'', fl (5/10)), (''Q15'', fl (3/10)), (''Q23'', fl (2/10))] \<and>
   axis_loop [''q14'' \<mapsto> PyNum (9/8) ''1.125'']
     [(''Q14'', fl (5/10)), (''Q15'', fl (3/10)), (''Q23'', fl (2/10))] (0, 0) = (9/16, 1/2) \<and>
   (1/2 :: real) \<noteq> 0 \<and>
   (\<exists>k::int.
      compute_axis_score [''q14'' \<mapsto> PyNum (9/8) ''1.125''] ''Social Pressure'' = Some (of_int k / 4) \<and>
      \<bar>of_int k - fl ((9/16) / (1/2)) * 4\<bar> \<le> 1 / 2 \<and> k = 4 \<and> even k)"
proof -
  let ?row = "[''q14'' \<mapsto> PyNum (9/8) ''1.125'']"
  let ?ws = "[(''Q14'', fl (5/10)), (''Q15'', fl (3/10)), (''Q23'', fl (2/10))]"
  have w: "map_of AXIS_WEIGHTS ''Social Pressure'' = Some ?ws"
    by (simp add: AXIS_WEIGHTS_def)
  have loop: "axis_loop ?row ?ws (0, 0) = (9/16, 1/2)"
    by (simp add: axis_eval_simps)
  have nz: "(1/2 :: real) \<noteq> 0" by simp
  have q: "fl ((9/16) / (1/2)) * 4 = 9/2" by (simp add: fl_num py_round_def)
  from compute_axis_score_half_even[OF w loop nz] obtain k :: int where
    k: "compute_axis_score ?row ''Social Pressure'' = Some (of_int k / 4)"
      "\<bar>of_int k - fl ((9/16) / (1/2)) * 4\<bar> \<le> 1 / 2"
      "\<bar>of_int k - fl ((9/16) / (1/2)) * 4\<bar> = 1 / 2 \<longrightarrow> even k"
    by blast
  have "real_of_int k \<le> 5" "4 \<le> real_of_int k" using k(2) unfolding q by linarith+
  then have "k = 4 \<or> k = 5" by linarith
  moreover have "k \<noteq> 5" using k(3) unfolding q by auto
  ultimately have "k = 4" by simp
  with k w loop nz show ?thesis by auto
qed

section \<open>Cosine similarity and the nearest prototype\<close>

lemma dot_loop_nonneg:
  assumes "0 \<le> s" "\<forall>ab \<in> set ps. 0 \<le> fst ab * snd ab"
  shows "0 \<le> foldl (\<lambda>s (a, b). fl (s + fl (a * b))) s ps"
  using assms
proof (induction ps arbitrary: s)
  case Nil
  then show ?case by simp
next
  case (Cons ab ps)
  obtain a b where ab: "ab = (a, b)" by (cases ab)
  have "0 \<le> a * b" using Cons.prems(2) ab by simp
  then have "0 \<le> fl (a * b)" by (rule fl_nonneg)
  then have "0 \<le> fl (s + fl (a * b))" using Cons.prems(1) by (intro fl_nonneg) simp
  then show ?case using Cons ab by simp
qed

lemma dot_nonneg:
  assumes "\<forall>a \<in> set v1. 0 \<le> a" "\<forall>b \<in> set v2. 0 \<le> b"
  shows "0 \<le> dot v1 v2"
  unfolding dot_def
proof (rule dot_loop_nonneg)
  show "\<forall>ab \<in> set (zip v1 v2). 0 \<le> fst ab * snd ab"
  proof
    fix ab assume "ab \<in> set (zip v1 v2)"
    then have "fst ab \<in> set v1" "snd ab \<in> set v2"
      by (metis prod.collapse set_zip_leftD, metis prod.collapse set_zip_rightD)
    then show "0 \<le> fst ab * snd ab" using assms by simp
  qed
qed simp

lemma dot_self_nonneg: "0 \<le> dot v v"
  unfolding dot_def
proof (rule dot_loop_nonneg)
  show "\<forall>ab \<in> set (zip v v). 0 \<le> fst ab * snd ab"
    by (auto simp: set_zip)
qed simp

lemma norm_nonneg: "0 \<le> norm v"
  unfolding norm_def using dot_self_nonneg by (intro fl_nonneg) simp

lemma cosine_similarity_nonneg:
  assumes "\<forall>a \<in> set vec1. 0 \<le> a" "\<forall>b \<in> set vec2. 0 \<le> b"
  shows "0 \<le> cosine_similarity vec1 vec2"
proof -
  have "0 \<le> fl (norm vec1 * norm vec2)" by (intro fl_nonneg mult_nonneg_nonneg norm_nonneg)
  then have "0 \<le> dot vec1 vec2 / fl (norm vec1 * norm vec2)"
    using dot_nonneg[OF assms] by simp
  then have "0 \<le> fl (dot vec1 vec2 / fl (norm vec1 * norm vec2))" by (rule fl_nonneg)
  then show ?thesis by (simp add: cosine_similarity_def Let_def)
qed

text \<open>
  The loop of \<^verbatim>\<open>find_closest_persona\<close> returns either the triple it started from, no
  similarity exceeding the initial one, or the first prototype of greatest similarity.
\<close>

lemma closest_loop_argmax:
  assumes "closest_loop user_vec protos (bc, bn, bs) = (c, n, s)"
  shows "bs \<le> s \<and>
         (\<forall>i < length protos. cosine_similarity user_vec (vector (snd (protos ! i))) \<le> s) \<and>
         ((c, n, s) = (bc, bn, bs) \<or>
          (\<exists>i < length protos.
             c = fst (protos ! i) \<and> n = name (snd (protos ! i)) \<and>
             s = cosine_similarity user_vec (vector (snd (protos ! i))) \<and> bs < s \<and>
             (\<forall>j < i. cosine_similarity user_vec (vector (snd (protos ! j))) < s)))"
  using assms
proof (induction protos arbitrary: bc bn bs)
  case Nil
  then show ?case by simp
next
  case (Cons cp protos)
  obtain code proto where cp: "cp = (code, proto)" by (cases cp)
  let ?sim = "cosine_similarity user_vec (vector proto)"
  show ?case
  proof (cases "bs < ?sim")
    case True
    then have run: "closest_loop user_vec protos (code, name proto, ?sim) = (c, n, s)"
      using Cons.prems cp by (simp add: Let_def)
    note IH = Cons.IH[OF run]
    from IH have le: "?sim \<le> s" by simp
    have all: "\<forall>i < length (cp # protos).
        cosine_similarity user_vec (vector (snd ((cp # protos) ! i))) \<le> s"
      using IH le cp by (auto simp: nth_Cons split: nat.splits)
    from IH consider (same) "(c, n, s) = (code, name proto, ?sim)"
      | (later) i where "i < length protos" "c = fst (protos ! i)" "n = name (snd (protos ! i))"
          "s = cosine_similarity user_vec (vector (snd (protos ! i)))" "?sim < s"
          "\<forall>j < i. cosine_similarity user_vec (vector (snd (protos ! j))) < s"
      by blast
    then have "\<exists>i < length (cp # protos).
             c = fst ((cp # protos) ! i) \<and> n = name (snd ((cp # protos) ! i)) \<and>
             s = cosine_similarity user_vec (vector (snd ((cp # protos) ! i))) \<and> bs < s \<and>
             (\<forall>j < i. cosine_similarity user_vec (vector (snd ((cp # protos) ! j))) < s)"
    proof cases
      case same
      then show ?thesis using True cp by (intro exI[of _ 0]) simp
    next
      case (later i)
      have "\<forall>j < Suc i. cosine_similarity user_vec (vector (snd ((cp # protos) ! j))) < s"
        using later(5,6) cp by (auto simp: nth_Cons split: nat.splits)
      then show ?thesis using later True by (intro exI[of _ "Suc i"]) auto
    qed
    then show ?thesis using all le True by auto
  next
    case False
    then have run: "closest_loop user_vec protos (bc, bn, bs) = (c, n, s)"
      using Cons.prems cp by (simp add: Let_def)
    note IH = Cons.IH[OF run]
    from IH have le: "bs \<le> s" by simp
    have first: "?sim \<le> s" using False le by simp
    have all: "\<forall>i < length (cp # protos).
        cosine_similarity user_vec (vector (snd ((cp # protos) ! i))) \<le> s"
      using IH first cp by (auto simp: nth_Cons split: nat.splits)
    from IH consider (same) "(c, n, s) = (bc, bn, bs)"
      | (later) i where "i < length protos" "c = fst (protos ! i)" "n = name (snd (protos ! i))"
          "s = cosine_similarity user_vec (vector (snd (protos ! i)))" "bs < s"
          "\<forall>j < i. cosine_similarity user_vec (vector (snd (protos ! j))) < s"
      by blast
    then show ?thesis
    proof cases
      case same
      then show ?thesis using all by simp
    next
      case (later i)
      have "?sim < s" using False later(5) by simp
      then have "\<forall>j < Suc i. cosine_similarity user_vec (vector (snd ((cp # protos) ! j))) < s"
        using later(6) cp by (auto simp: nth_Cons split: nat.splits)
      then have "\<exists>k < length (cp # protos).
             c = fst ((cp # protos) ! k) \<and> n = name (snd ((cp # protos) ! k)) \<and>
             s = cosine_similarity user_vec (vector (snd ((cp # protos) ! k))) \<and> bs < s \<and>
             (\<forall>j < k. cosine_similarity user_vec (vector (snd ((cp # protos) ! j))) < s)"
        using later by (intro exI[of _ "Suc i"]) auto
      then show ?thesis using all le by blast
    qed
  qed
qed

section \<open>The computed path always names a persona\<close>

lemma prototype_vector_nonneg:
  "(code, proto) \<in> set PERSONA_PROTOTYPES \<Longrightarrow> \<forall>x \<in> set (vector proto). 0 \<le> x"
  by (auto simp: PERSONA_PROTOTYPES_def)

lemma prototypes_distinct: "distinct (map fst PERSONA_PROTOTYPES)"
  by (simp add: PERSONA_PROTOTYPES_def)

lemma prototype_names_valid:
  "(code, proto) \<in> set PERSONA_PROTOTYPES \<Longrightarrow> name proto \<noteq> ''Unknown'' \<and> name proto \<noteq> []"
  by (auto simp: PERSONA_PROTOTYPES_def)

lemma all_axes_loop_values:
  "(axis, v) \<in> set (all_axes_loop row_data axes) \<Longrightarrow> compute_axis_score row_data axis = Some v"
  by (induction axes) (auto split: option.splits)

lemma compute_all_axes_values:
  assumes "(axis, v) \<in> set (compute_all_axes row_data)"
  shows "1 \<le> v \<and> v \<le> 5"
proof -
  have "compute_axis_score row_data axis = Some v"
    using all_axes_loop_values[of axis v row_data AXES] assms by (simp add: compute_all_axes_def)
  from axis_score_quarter_step[OF this] obtain k :: int where
    "4 \<le> k" "k \<le> 20" "v = of_int k / 4" by blast
  then show ?thesis by simp
qed

lemma dict_get_nonneg:
  assumes "\<forall>kv \<in> set d. 0 \<le> snd kv"
  shows "0 \<le> dict_get d k (0::real)"
proof (cases "map_of d k")
  case None
  then show ?thesis by (simp add: dict_get_def)
next
  case (Some v)
  then have "(k, v) \<in> set d" by (rule map_of_SomeD)
  with assms Some show ?thesis by (auto simp: dict_get_def)
qed

lemma find_closest_persona_known:
  assumes "\<forall>kv \<in> set scores. 0 \<le> snd kv"
  shows "\<exists>code proto. (code, proto) \<in> set PERSONA_PROTOTYPES \<and>
           find_closest_persona scores =
             (code, name proto,
              cosine_similarity (map (\<lambda>axis. dict_get scores axis 0) AXES) (vector proto))"
proof -
  let ?u = "map (\<lambda>axis. dict_get scores axis 0) AXES"
  obtain c n s where res: "closest_loop ?u PERSONA_PROTOTYPES ([], [], - 1) = (c, n, s)"
    by (metis prod_cases3)
  have u0: "\<forall>a \<in> set ?u. 0 \<le> a" using dict_get_nonneg[OF assms] by simp
  have len: "0 < length PERSONA_PROTOTYPES" by (simp add: PERSONA_PROTOTYPES_def)
  have "(PERSONA_PROTOTYPES ! 0) \<in> set PERSONA_PROTOTYPES" using len by (rule nth_mem)
  then have "\<forall>b \<in> set (vector (snd (PERSONA_PROTOTYPES ! 0))). 0 \<le> b"
    using prototype_vector_nonneg[of "fst (PERSONA_PROTOTYPES ! 0)" "snd (PERSONA_PROTOTYPES ! 0)"]
    by simp
  then have first: "0 \<le> cosine_similarity ?u (vector (snd (PERSONA_PROTOTYPES ! 0)))"
    by (rule cosine_similarity_nonneg[OF u0])
  from closest_loop_argmax[OF res] len first have "0 \<le> s" by force
  with closest_loop_argmax[OF res] obtain i where
    i: "i < length PERSONA_PROTOTYPES" "c = fst (PERSONA_PROTOTYPES ! i)"
      "n = name (snd (PERSONA_PROTOTYPES ! i))"
      "s = cosine_similarity ?u (vector (snd (PERSONA_PROTOTYPES ! i)))"
    by auto
  define p where "p = snd (PERSONA_PROTOTYPES ! i)"
  have "(c, p) \<in> set PERSONA_PROTOTYPES"
    unfolding p_def using i(1,2) by (metis nth_mem prod.collapse)
  moreover have "find_closest_persona scores = (c, name p, cosine_similarity ?u (vector p))"
    using res i(3,4) by (simp add: find_closest_persona_def Let_def p_def)
  ultimately show ?thesis by blast
qed

lemma prototype_lookup:
  "(code, proto) \<in> set PERSONA_PROTOTYPES \<Longrightarrow> map_of PERSONA_PROTOTYPES code = Some proto"
  using prototypes_distinct by (rule map_of_is_SomeI)

lemma determine_persona_shape:
  "\<exists>code nm scores anchored.
      determine_persona row_data = Inr (code, nm, scores, anchored) \<and>
      ((code = [] \<and> nm = ''Unknown'') \<or>
       (\<exists>proto. (code, proto) \<in> set PERSONA_PROTOTYPES \<and> nm = name proto)) \<and>
      (anchor_code row_data = None \<and> 4 \<le> length (compute_all_axes row_data) \<longrightarrow>
         code \<noteq> [] \<and> scores = compute_all_axes row_data \<and> \<not> anchored)"
proof -
  let ?scores = "compute_all_axes row_data"
  have nonneg: "\<forall>kv \<in> set ?scores. 0 \<le> snd kv"
  proof
    fix kv assume "kv \<in> set ?scores"
    then have "1 \<le> snd kv" using compute_all_axes_values[of "fst kv" "snd kv" row_data] by simp
    then show "0 \<le> snd kv" by simp
  qed
  from find_closest_persona_known[OF nonneg] obtain c p where
    cp: "(c, p) \<in> set PERSONA_PROTOTYPES"
    and fc: "\<exists>s. find_closest_persona ?scores = (c, name p, s)" by blast
  have cne: "c \<noteq> []"
    using cp persona_keys by (metis fst_conv image_eqI known_code_nonempty persona_code_known_iff)
  show ?thesis
  proof (cases "anchor_code row_data")
    case (Some code)
    then have "\<exists>raw. q20_to_code raw = Some code"
      by (auto simp: anchor_code_def Let_def split: option.splits if_splits)
    then have known: "persona_code_known code" using q20_to_code_known by blast
    then obtain proto where proto: "map_of PERSONA_PROTOTYPES code = Some proto"
      by (auto simp: persona_code_known_def)
    have len: "length (vector proto) = length AXES" by (rule prototype_vector_length[OF proto])
    have "determine_persona row_data = Inr (code, name proto, zip AXES (vector proto), True)"
      using Some proto len by (simp add: determine_persona_def vector_to_scores_def)
    moreover have "(code, proto) \<in> set PERSONA_PROTOTYPES" using proto by (rule map_of_SomeD)
    ultimately show ?thesis using Some by auto
  next
    case None
    show ?thesis
    proof (cases "length ?scores < 4")
      case True
      then have "determine_persona row_data = Inr ([], ''Unknown'', ?scores, False)"
        using None by (simp add: determine_persona_def)
      then show ?thesis using True by auto
    next
      case False
      then have "determine_persona row_data = Inr (c, name p, ?scores, False)"
        using None fc by (auto simp: determine_persona_def Let_def)
      then show ?thesis using cp cne by auto
    qed
  qed
qed

text \<open>
  Claim C10. On the computed path (no resolvable anchor) with at least 4 of the 6 axis
  scores present, \<^verbatim>\<open>determine_persona\<close> returns a code among \<^verbatim>\<open>A\<close>..\<^verbatim>\<open>J\<close> with the name
  of that persona, never \<^verbatim>\<open>'Unknown'\<close>: the scores are at least 1, so every cosine
  similarity is at least 0, above the initial \<open>-1\<close> of the best similarity. And every
  result of \<^verbatim>\<open>determine_persona\<close> is either such a pair of a code and its name or the
  pair of \<^verbatim>\<open>''\<close> and \<^verbatim>\<open>'Unknown'\<close>.
\<close>

theorem determine_persona_classifies:
  "((\<forall>raw. row_data ''q20'' = Some raw \<and> truthy raw \<longrightarrow> q20_to_code raw = None) \<and>
    4 \<le> length (filter (\<lambda>axis. compute_axis_score row_data axis \<noteq> None) AXES) \<longrightarrow>
      (\<exists>code proto.
         map_of PERSONA_PROTOTYPES code = Some proto \<and>
         code \<in> set [''A'', ''B'', ''C'', ''D'', ''E'', ''F'', ''G'', ''H'', ''I'', ''J''] \<and>
         name proto \<noteq> ''Unknown'' \<and>
         determine_persona row_data = Inr (code, name proto, compute_all_axes row_data, False))) \<and>
   (\<exists>code nm scores anchored.
      determine_persona row_data = Inr (code, nm, scores, anchored) \<and>
      ((code = [] \<and> nm = ''Unknown'') \<or>
       (\<exists>proto. map_of PERSONA_PROTOTYPES code = Some proto \<and> nm = name proto \<and>
          code \<in> set [''A'', ''B'', ''C'', ''D'', ''E'', ''F'', ''G'', ''H'', ''I'', ''J''])))"
proof -
  let ?codes = "set [''A'', ''B'', ''C'', ''D'', ''E'', ''F'', ''G'', ''H'', ''I'', ''J'']"
  have keys: "code \<in> ?codes" if "(code, proto) \<in> set PERSONA_PROTOTYPES" for code proto
    using that persona_keys by (metis fst_conv image_eqI)
  from determine_persona_shape[of row_data] obtain code nm scores anchored where
    d: "determine_persona row_data = Inr (code, nm, scores, anchored)"
    and sh: "(code = [] \<and> nm = ''Unknown'') \<or>
       (\<exists>proto. (code, proto) \<in> set PERSONA_PROTOTYPES \<and> nm = name proto)"
    and cmp: "anchor_code row_data = None \<and> 4 \<le> length (compute_all_axes row_data) \<longrightarrow>
         code \<noteq> [] \<and> scores = compute_all_axes row_data \<and> \<not> anchored"
    by blast
  have part2: "\<exists>code nm scores anchored.
      determine_persona row_data = Inr (code, nm, scores, anchored) \<and>
      ((code = [] \<and> nm = ''Unknown'') \<or>
       (\<exists>proto. map_of PERSONA_PROTOTYPES code = Some proto \<and> nm = name proto \<and> code \<in> ?codes))"
    using d sh keys prototype_lookup by blast
  have part1: "(\<forall>raw. row_data ''q20'' = Some raw \<and> truthy raw \<longrightarrow> q20_to_code raw = None) \<and>
    4 \<le> length (filter (\<lambda>axis. compute_axis_score row_data axis \<noteq> None) AXES) \<longrightarrow>
      (\<exists>code proto.
         map_of PERSONA_PROTOTYPES code = Some proto \<and> code \<in> ?codes \<and>
         name proto \<noteq> ''Unknown'' \<and>
         determine_persona row_data = Inr (code, name proto, compute_all_axes row_data, False))"
  proof
    assume a: "(\<forall>raw. row_data ''q20'' = Some raw \<and> truthy raw \<longrightarrow> q20_to_code raw = None) \<and>
      4 \<le> length (filter (\<lambda>axis. compute_axis_score row_data axis \<noteq> None) AXES)"
    then have "anchor_code row_data = None" using anchor_code_unresolved[of row_data] by blast
    moreover have "4 \<le> length (compute_all_axes row_data)"
      using a by (simp add: compute_all_axes_length)
    ultimately have c: "code \<noteq> []" "scores = compute_all_axes row_data" "\<not> anchored"
      using cmp by simp_all
    with sh obtain proto where proto: "(code, proto) \<in> set PERSONA_PROTOTYPES" "nm = name proto"
      by blast
    show "\<exists>code proto.
         map_of PERSONA_PROTOTYPES code = Some proto \<and> code \<in> ?codes \<and>
         name proto \<noteq> ''Unknown'' \<and>
         determine_persona row_data = Inr (code, name proto, compute_all_axes row_data, False)"
      using d c proto prototype_lookup[OF proto(1)] keys[OF proto(1)]
        prototype_names_valid[OF proto(1)] by auto
  qed
  from part1 part2 show ?thesis by blast
qed

theorem determine_persona_classifies_witness:
  "[''q8'' \<mapsto> PyStr ''completely'', ''q10'' \<mapsto> PyStr ''very'', ''q12'' \<mapsto> PyStr ''slightly'',
    ''q14'' \<mapsto> PyStr ''not at all''] ''q20'' = None \<and>
   length (filter (\<lambda>axis. compute_axis_score
     [''q8'' \<mapsto> PyStr ''completely'', ''q10'' \<mapsto> PyStr ''very'', ''q12'' \<mapsto> PyStr ''slightly'',
      ''q14'' \<mapsto> PyStr ''not at all''] axis \<noteq> None) AXES) = 4 \<and>
   (\<exists>code proto.
      map_of PERSONA_PROTOTYPES code = Some proto \<and>
      determine_persona
        [''q8'' \<mapsto> PyStr ''completely'', ''q10'' \<mapsto> PyStr ''very'', ''q12'' \<mapsto> PyStr ''slightly'',
         ''q14'' \<mapsto> PyStr ''not at all'']
      = Inr (code, name proto,
             [(''Price'', 5), (''Quality'', 4), (''Ingredients'', 2), (''Social Pressure'', 1)],
             False))"
proof -
  let ?row = "[''q8'' \<mapsto> PyStr ''completely'', ''q10'' \<mapsto> PyStr ''very'',
               ''q12'' \<mapsto> PyStr ''slightly'', ''q14'' \<mapsto> PyStr ''not at all'']"
  have q20: "?row ''q20'' = None" by simp
  have scores: "compute_axis_score ?row ''Price'' = Some 5"
    "compute_axis_score ?row ''Quality'' = Some 4"
    "compute_axis_score ?row ''Ingredients'' = Some 2"
    "compute_axis_score ?row ''Social Pressure'' = Some 1"
    "compute_axis_score ?row ''Brand Image'' = None"
    "compute_axis_score ?row ''Convenience'' = None"
    by (simp_all add: axis_eval_simps)
  have four: "length (filter (\<lambda>axis. compute_axis_score ?row axis \<noteq> None) AXES) = 4"
    by (simp add: AXES_def scores)
  have all: "compute_all_axes ?row =
    [(''Price'', 5), (''Quality'', 4), (''Ingredients'', 2), (''Social Pressure'', 1)]"
    by (simp add: compute_all_axes_def AXES_def scores)
  from determine_persona_classifies[of ?row] q20 four
  have "\<exists>code proto.
         map_of PERSONA_PROTOTYPES code = Some proto \<and>
         code \<in> set [''A'', ''B'', ''C'', ''D'', ''E'', ''F'', ''G'', ''H'', ''I'', ''J''] \<and>
         name proto \<noteq> ''Unknown'' \<and>
         determine_persona ?row = Inr (code, name proto, compute_all_axes ?row, False)"
    by simp
  then show ?thesis using q20 four unfolding all by blast
qed

section \<open>The persona distribution\<close>

lemma counter_incr_get:
  "dict_get (counter_incr c k) k' 0 = dict_get c k' 0 + (if k' = k then 1 else 0)"
  by (induction c k rule: counter_incr.induct) (auto simp: dict_get_def)

lemma counter_incr_sum:
  "sum_list (map snd (counter_incr c k)) = sum_list (map snd c) + 1"
  by (induction c k rule: counter_incr.induct) auto

lemma determine_persona_total:
  "\<exists>code nm scores anchored. determine_persona row_data = Inr (code, nm, scores, anchored)"
  using determine_persona_shape[of row_data] by blast

lemma classified_name_cases:
  obtains nm where "classified_name row_data = Some nm"
    "nm = ''Unknown'' \<or> nm \<in> name ` snd ` set PERSONA_PROTOTYPES"
proof -
  from determine_persona_shape[of row_data] obtain code nm scores anchored where
    d: "determine_persona row_data = Inr (code, nm, scores, anchored)"
    and c: "(code = [] \<and> nm = ''Unknown'') \<or>
       (\<exists>proto. (code, proto) \<in> set PERSONA_PROTOTYPES \<and> nm = name proto)"
    by blast
  have "classified_name row_data = Some nm" using d by (simp add: classified_name_def)
  moreover have "nm = ''Unknown'' \<or> nm \<in> name ` snd ` set PERSONA_PROTOTYPES"
    using c by force
  ultimately show ?thesis by (rule that)
qed

lemma prototype_names_nonempty: "nm \<in> name ` snd ` set PERSONA_PROTOTYPES \<Longrightarrow> nm \<noteq> []"
  by (auto simp: PERSONA_PROTOTYPES_def)

lemma valid_iff_not_unknown:
  assumes "classified_name row_data = Some nm"
  shows "is_valid_persona nm \<longleftrightarrow> nm \<noteq> ''Unknown''"
proof -
  obtain nm' where "classified_name row_data = Some nm'"
    "nm' = ''Unknown'' \<or> nm' \<in> name ` snd ` set PERSONA_PROTOTYPES"
    by (rule classified_name_cases)
  with assms have "nm = ''Unknown'' \<or> nm \<in> name ` snd ` set PERSONA_PROTOTYPES" by simp
  then show ?thesis using prototype_names_nonempty by (auto simp: is_valid_persona_def)
qed

text \<open>The counting loop: it never fails, and it counts the rows of each valid name.\<close>

lemma count_loop_result:
  "\<exists>counts. count_loop records persona_counts = Inr counts \<and>
     (\<forall>nm. dict_get counts nm 0 =
        dict_get persona_counts nm 0 +
        (if nm \<noteq> ''Unknown'' then length (filter (\<lambda>r. classified_name r = Some nm) records) else 0)) \<and>
     sum_list (map snd counts) =
       sum_list (map snd persona_counts) +
       length (filter (\<lambda>r. \<exists>nm. classified_name r = Some nm \<and> nm \<noteq> ''Unknown'') records)"
proof (induction records arbitrary: persona_counts)
  case Nil
  then show ?case by simp
next
  case (Cons r records)
  obtain code nm scores anchored where
    d: "determine_persona r = Inr (code, nm, scores, anchored)"
    using determine_persona_total by blast
  then have cn: "classified_name r = Some nm" by (simp add: classified_name_def)
  have valid: "is_valid_persona nm \<longleftrightarrow> nm \<noteq> ''Unknown''" by (rule valid_iff_not_unknown[OF cn])
  show ?case
  proof (cases "nm = ''Unknown''")
    case True
    then have "count_loop (r # records) persona_counts = count_loop records persona_counts"
      using d valid by simp
    moreover have "filter (\<lambda>r. classified_name r = Some n') (r # records) =
        filter (\<lambda>r. classified_name r = Some n') records" if "n' \<noteq> ''Unknown''" for n'
      using cn True that by auto
    moreover have "filter (\<lambda>r. \<exists>nm. classified_name r = Some nm \<and> nm \<noteq> ''Unknown'') (r # records)
      = filter (\<lambda>r. \<exists>nm. classified_name r = Some nm \<and> nm \<noteq> ''Unknown'') records"
      using cn True by auto
    ultimately show ?thesis using Cons.IH[of persona_counts] by auto
  next
    case False
    then have step: "count_loop (r # records) persona_counts =
        count_loop records (counter_incr persona_counts nm)"
      using d valid by simp
    have f1: "length (filter (\<lambda>r. classified_name r = Some n') (r # records)) =
        (if n' = nm then 1 else 0) + length (filter (\<lambda>r. classified_name r = Some n') records)"
      for n' using cn by auto
    have f2: "length (filter (\<lambda>r. \<exists>nm. classified_name r = Some nm \<and> nm \<noteq> ''Unknown'') (r # records))
      = 1 + length (filter (\<lambda>r. \<exists>nm. classified_name r = Some nm \<and> nm \<noteq> ''Unknown'') records)"
      using cn False by auto
    from Cons.IH[of "counter_incr persona_counts nm"] obtain counts where
      c: "count_loop records (counter_incr persona_counts nm) = Inr counts"
      and g: "\<forall>n'. dict_get counts n' 0 =
        dict_get (counter_incr persona_counts nm) n' 0 +
        (if n' \<noteq> ''Unknown'' then length (filter (\<lambda>r. classified_name r = Some n') records) else 0)"
      and s: "sum_list (map snd counts) =
       sum_list (map snd (counter_incr persona_counts nm)) +
       length (filter (\<lambda>r. \<exists>nm. classified_name r = Some nm \<and> nm \<noteq> ''Unknown'') records)"
      by blast
    have "\<forall>n'. dict_get counts n' 0 =
        dict_get persona_counts n' 0 +
        (if n' \<noteq> ''Unknown'' then length (filter (\<lambda>r. classified_name r = Some n') (r # records)) else 0)"
      using g False unfolding f1 counter_incr_get by auto
    moreover have "sum_list (map snd counts) =
       sum_list (map snd persona_counts) +
       length (filter (\<lambda>r. \<exists>nm. classified_name r = Some nm \<and> nm \<noteq> ''Unknown'') (r # records))"
      using s unfolding f2 counter_incr_sum by simp
    ultimately show ?thesis using c step by simp
  qed
qed


lemma persona_codes_order:
  "PERSONA_CODES_ORDER = [''A'', ''B'', ''C'', ''D'', ''E'', ''F'', ''G'', ''H'', ''I'', ''J'']"
  by (simp add: PERSONA_CODES_ORDER_def PERSONA_PROTOTYPES_def)

lemma persona_names_eq:
  "persona_names =
     [''Seamless Shoppers'', ''Value Hunters'', ''Aspirational Splurgers'', ''Obligati'',
      ''Luxe Enthusiasts'', ''Dependables'', ''Sprezzatura'', ''Ascent Beautifiers'',
      ''Refined Connoisseurs'', ''Exotica Seekers'']"
  by (simp add: persona_names_def persona_codes_order PERSONA_PROTOTYPES_def)

lemma distribution_loop_result:
  assumes "\<forall>code \<in> set codes. map_of PERSONA_PROTOTYPES code \<noteq> None"
  shows "\<exists>distribution. distribution_loop codes persona_counts total' = Inr distribution \<and>
     map persona_code distribution = codes \<and>
     map persona distribution = map (\<lambda>code. name (the (map_of PERSONA_PROTOTYPES code))) codes \<and>
     map count distribution = map (\<lambda>e. dict_get persona_counts (persona e) 0) distribution \<and>
     map percent distribution =
       map (\<lambda>e. if 0 < total' then py_round_n (fl (fl (real (count e) / real total') * 100)) 2
                 else 0) distribution"
  using assms
proof (induction codes)
  case Nil
  then show ?case by simp
next
  case (Cons code codes)
  then obtain proto where proto: "map_of PERSONA_PROTOTYPES code = Some proto" by auto
  from Cons obtain distribution where
    "distribution_loop codes persona_counts total' = Inr distribution \<and>
     map persona_code distribution = codes \<and>
     map persona distribution = map (\<lambda>code. name (the (map_of PERSONA_PROTOTYPES code))) codes \<and>
     map count distribution = map (\<lambda>e. dict_get persona_counts (persona e) 0) distribution \<and>
     map percent distribution =
       map (\<lambda>e. if 0 < total' then py_round_n (fl (fl (real (count e) / real total') * 100)) 2
                 else 0) distribution"
    by auto
  then show ?case using proto by (simp add: persona_name_from_code_def Let_def)
qed

lemma sum_indicator_distinct:
  "distinct xs \<Longrightarrow> y \<in> set xs \<Longrightarrow> (\<Sum>x\<leftarrow>xs. if y = x then 1 else 0) = (1::nat)"
proof (induction xs)
  case Nil
  then show ?case by simp
next
  case (Cons a xs)
  show ?case
  proof (cases "y = a")
    case True
    then have "y \<notin> set xs" using Cons.prems(1) by simp
    then have "(\<Sum>x\<leftarrow>xs. if y = x then 1 else 0) = (0::nat)"
      by (induction xs) auto
    with True show ?thesis by simp
  next
    case False
    then show ?thesis using Cons by auto
  qed
qed

lemma sum_count_distinct:
  assumes "distinct xs" "set ys \<subseteq> set xs"
  shows "(\<Sum>x\<leftarrow>xs. length (filter (\<lambda>y. y = x) ys)) = length ys"
  using assms(2)
proof (induction ys)
  case Nil
  then show ?case by simp
next
  case (Cons y ys)
  have one: "(\<Sum>x\<leftarrow>xs. if y = x then 1 else 0) = (1::nat)"
    using assms(1) Cons.prems by (intro sum_indicator_distinct) simp_all
  have "(\<Sum>x\<leftarrow>xs. length (filter (\<lambda>y. y = x) (y # ys))) =
        (\<Sum>x\<leftarrow>xs. (if y = x then 1 else 0) + length (filter (\<lambda>y. y = x) ys))"
    by (intro arg_cong[where f=sum_list] map_cong) auto
  also have "\<dots> = (\<Sum>x\<leftarrow>xs. if y = x then 1 else 0) + (\<Sum>x\<leftarrow>xs. length (filter (\<lambda>y. y = x) ys))"
    by (simp add: sum_list_addf)
  finally show ?case using one Cons by simp
qed


lemma persona_names_set: "set persona_names = name ` snd ` set PERSONA_PROTOTYPES"
  unfolding persona_names_eq by (simp add: PERSONA_PROTOTYPES_def)

lemma persona_names_distinct: "distinct persona_names"
  unfolding persona_names_eq by simp

lemma unknown_not_persona: "''Unknown'' \<notin> set persona_names"
  unfolding persona_names_eq by simp

text \<open>The rows of each persona add up to the rows with a valid classification.\<close>

lemma valid_rows_by_persona:
  "(\<Sum>nm\<leftarrow>persona_names. length (filter (\<lambda>r. classified_name r = Some nm) records)) =
     length (filter (\<lambda>r. \<exists>nm. classified_name r = Some nm \<and> nm \<noteq> ''Unknown'') records)"
proof -
  define ys where
    "ys = map (\<lambda>r. the (classified_name r))
            (filter (\<lambda>r. \<exists>nm. classified_name r = Some nm \<and> nm \<noteq> ''Unknown'') records)"
  have sub: "set ys \<subseteq> set persona_names"
  proof
    fix y assume "y \<in> set ys"
    then obtain r where r: "y = the (classified_name r)"
      "\<exists>nm. classified_name r = Some nm \<and> nm \<noteq> ''Unknown''" by (auto simp: ys_def)
    obtain nm where "classified_name r = Some nm"
      "nm = ''Unknown'' \<or> nm \<in> name ` snd ` set PERSONA_PROTOTYPES"
      by (rule classified_name_cases)
    with r show "y \<in> set persona_names" unfolding persona_names_set by auto
  qed
  have each: "length (filter (\<lambda>r. classified_name r = Some nm) records) =
      length (filter (\<lambda>y. y = nm) ys)" if "nm \<in> set persona_names" for nm
  proof -
    have ne: "nm \<noteq> ''Unknown''" using that unknown_not_persona by auto
    have "filter (\<lambda>y. y = nm) ys =
        map (\<lambda>r. the (classified_name r)) (filter (\<lambda>r. classified_name r = Some nm) records)"
      unfolding ys_def filter_map filter_filter comp_def
      by (intro arg_cong[where f="map _"] filter_cong) (auto simp: ne)
    then show ?thesis by simp
  qed
  have "(\<Sum>nm\<leftarrow>persona_names. length (filter (\<lambda>r. classified_name r = Some nm) records)) =
        (\<Sum>nm\<leftarrow>persona_names. length (filter (\<lambda>y. y = nm) ys))"
    by (intro arg_cong[where f=sum_list] map_cong) (simp_all add: each)
  also have "\<dots> = length ys" by (rule sum_count_distinct[OF persona_names_distinct sub])
  finally show ?thesis by (simp add: ys_def)
qed

lemma percent_error:
  assumes "c \<le> t" and "0 < t"
  shows "\<bar>py_round_n (fl (fl (real c / real t) * 100)) 2 - real c / real t * 100\<bar>
           \<le> 1 / 200 + 1 / 10 ^ 12"
proof -
  define q where "q = real c / real t"
  define a where "a = fl q"
  define b where "b = fl (a * 100)"
  define k where "k = py_round (b * 100)"
  define d where "d = real_of_int k / 100"
  have u: "(1::real) / 2 ^ 53 \<le> 1 / 1000000000000000" by simp
  have q: "0 \<le> q" "q \<le> 1" using assms by (simp_all add: q_def)
  have "\<bar>a - q\<bar> \<le> \<bar>q\<bar> / 2 ^ 53" unfolding a_def by (rule fl_rel_err)
  also have "\<dots> \<le> 1 / 2 ^ 53" using q by (intro divide_right_mono) simp_all
  finally have aq: "\<bar>a - q\<bar> \<le> 1 / 1000000000000000" using u by linarith
  have a0: "0 \<le> a" unfolding a_def using q(1) by (rule fl_nonneg)
  have a2: "a \<le> 2" using aq q by linarith
  have "\<bar>b - a * 100\<bar> \<le> \<bar>a * 100\<bar> / 2 ^ 53" unfolding b_def by (rule fl_rel_err)
  also have "\<dots> \<le> 200 / 2 ^ 53" using a0 a2 by (intro divide_right_mono) simp_all
  also have "\<dots> = 200 * (1 / 2 ^ 53)" by simp
  also have "\<dots> \<le> 200 * (1 / 1000000000000000)" using u by (intro mult_left_mono) simp_all
  finally have ba: "\<bar>b - a * 100\<bar> \<le> 200 / 1000000000000000" by simp
  have b0: "0 \<le> b" unfolding b_def using a0 by (intro fl_nonneg) simp
  have b2: "b \<le> 201" using ba a2 by linarith
  have "\<bar>real_of_int k - b * 100\<bar> \<le> 1 / 2" unfolding k_def by (rule py_round_err)
  then have db: "\<bar>d - b\<bar> \<le> 1 / 200" unfolding d_def by linarith
  have d: "\<bar>d\<bar> \<le> 202" using db b0 b2 by linarith
  have "\<bar>fl d - d\<bar> \<le> \<bar>d\<bar> / 2 ^ 53" by (rule fl_rel_err)
  also have "\<dots> \<le> 202 / 2 ^ 53" using d by (intro divide_right_mono) simp_all
  also have "\<dots> = 202 * (1 / 2 ^ 53)" by simp
  also have "\<dots> \<le> 202 * (1 / 1000000000000000)" using u by (intro mult_left_mono) simp_all
  finally have rd: "\<bar>fl d - d\<bar> \<le> 202 / 1000000000000000" by simp
  have eq: "py_round_n (fl (fl (real c / real t) * 100)) 2 = fl d"
    by (simp add: py_round_n_def d_def k_def b_def a_def q_def)
  have "\<bar>fl d - q * 100\<bar> \<le> 1 / 200 + 1 / 1000000000000"
    using rd db ba aq by linarith
  then show ?thesis unfolding eq q_def by simp
qed

text \<open>Classifying single rows, and counting a run of equal rows.\<close>

lemma determine_persona_letter_A:
  "determine_persona [''q20'' \<mapsto> PyStr ''A''] =
     Inr (''A'', ''Seamless Shoppers'', zip AXES [5/2, 13/4, 13/4, 5/2, 5/2, 5], True)"
proof -
  have "q20_to_code (PyStr ''A'') = Some ''A''" by code_simp
  then show ?thesis
    by (simp add: determine_persona_def anchor_code_def truthy_def vector_to_scores_def
        PERSONA_PROTOTYPES_def AXES_def)
qed

lemma determine_persona_letter_a:
  "determine_persona [''q20'' \<mapsto> PyStr '' a  ''] =
     Inr (''A'', ''Seamless Shoppers'', zip AXES [5/2, 13/4, 13/4, 5/2, 5/2, 5], True)"
proof -
  have "q20_to_code (PyStr '' a  '') = Some ''A''" by code_simp
  then show ?thesis
    by (simp add: determine_persona_def anchor_code_def truthy_def vector_to_scores_def
        PERSONA_PROTOTYPES_def AXES_def)
qed

lemma determine_persona_name_B:
  "determine_persona [''q20'' \<mapsto> PyStr ''Deals first (Value Hunters)''] =
     Inr (''B'', ''Value Hunters'', zip AXES [5, 3/2, 2, 1, 5/2, 5/2], True)"
proof -
  have "q20_to_code (PyStr ''Deals first (Value Hunters)'') = Some ''B''" by code_simp
  then show ?thesis
    by (simp add: determine_persona_def anchor_code_def truthy_def vector_to_scores_def
        PERSONA_PROTOTYPES_def AXES_def)
qed

lemma determine_persona_empty:
  "determine_persona Map.empty = Inr ([], ''Unknown'', [], False)"
  by (simp add: determine_persona_def anchor_code_def truthy_def compute_all_axes_def AXES_def
      compute_axis_score_def AXIS_WEIGHTS_def)

lemma determine_persona_letter_B:
  "determine_persona [''q20'' \<mapsto> PyStr ''B''] =
     Inr (''B'', ''Value Hunters'', zip AXES [5, 3/2, 2, 1, 5/2, 5/2], True)"
proof -
  have "q20_to_code (PyStr ''B'') = Some ''B''" by code_simp
  then show ?thesis
    by (simp add: determine_persona_def anchor_code_def truthy_def vector_to_scores_def
        PERSONA_PROTOTYPES_def AXES_def)
qed

lemma count_loop_replicate_head:
  assumes "determine_persona r = Inr (code, nm, scores, anchored)" and "is_valid_persona nm"
  shows "count_loop (replicate n r @ rs) ((nm, k) # c) = count_loop rs ((nm, k + n) # c)"
  using assms by (induction n arbitrary: k) simp_all

lemma count_loop_replicate_second:
  assumes "determine_persona r = Inr (code, nm, scores, anchored)" and "is_valid_persona nm"
    and "nm' \<noteq> nm"
  shows "count_loop (replicate n r @ rs) [(nm', k'), (nm, k)] =
         count_loop rs [(nm', k'), (nm, k + n)]"
  using assms by (induction n arbitrary: k) simp_all

lemma count_loop_replicate_first:
  assumes "determine_persona r = Inr (code, nm, scores, anchored)" and "is_valid_persona nm"
  shows "count_loop (replicate (Suc n) r @ rs) [] = count_loop rs [(nm, Suc n)]"
  using count_loop_replicate_head[OF assms, of n rs 1 "[]"] assms by simp

lemma count_loop_replicate_next:
  assumes "determine_persona r = Inr (code, nm, scores, anchored)" and "is_valid_persona nm"
    and "nm' \<noteq> nm"
  shows "count_loop (replicate (Suc n) r @ rs) [(nm', k')] =
         count_loop rs [(nm', k'), (nm, Suc n)]"
  using count_loop_replicate_second[OF assms, of n rs k' 1] assms by simp

lemma count_loop_23_137:
  "count_loop (replicate 23 [''q20'' \<mapsto> PyStr ''A''] @ replicate 137 [''q20'' \<mapsto> PyStr ''B'']) [] =
     Inr [(''Seamless Shoppers'', 23), (''Value Hunters'', 137)]"
proof -
  have v: "is_valid_persona ''Seamless Shoppers''" "is_valid_persona ''Value Hunters''"
    by (simp_all add: is_valid_persona_def)
  have n: "''Seamless Shoppers'' \<noteq> ''Value Hunters''" by simp
  have "count_loop (replicate (Suc 22) [''q20'' \<mapsto> PyStr ''A''] @
                    replicate (Suc 136) [''q20'' \<mapsto> PyStr ''B''] @ []) [] =
        Inr [(''Seamless Shoppers'', Suc 22), (''Value Hunters'', Suc 136)]"
    by (simp only: count_loop_replicate_first[OF determine_persona_letter_A v(1)]
        count_loop_replicate_next[OF determine_persona_letter_B v(2) n] count_loop.simps(1))
  then show ?thesis by (simp del: replicate_Suc)
qed

text \<open>
  Claim C3, as stated: the percentage of every entry is \<open>count / total_valid * 100\<close>
  rounded to 2 decimals. It fails on the table of 23 rows whose anchor answer is \<^verbatim>\<open>A\<close>
  followed by 137 rows whose anchor answer is \<^verbatim>\<open>B\<close>: the total is 160, the entry of \<^verbatim>\<open>A\<close>
  has the count 23, and \<open>23 / 160 * 100\<close> is \<open>14.375\<close>, which rounds to \<open>14.38\<close>. The code
  divides and multiplies in floating point, which gives \<open>14.374999999999998\<close>, and
  \<^verbatim>\<open>round\<close> of that is \<open>14.37\<close>.
\<close>

theorem persona_distribution_percent_counterexample:
  "generate_taam_persona_distribution
     (replicate 23 [''q20'' \<mapsto> PyStr ''A''] @ replicate 137 [''q20'' \<mapsto> PyStr ''B'']) =
   Inr ([\<lparr>persona = ''Seamless Shoppers'', persona_code = ''A'', count = 23, percent = fl (1437/100)\<rparr>,
         \<lparr>persona = ''Value Hunters'', persona_code = ''B'', count = 137, percent = fl (8562/100)\<rparr>,
         \<lparr>persona = ''Aspirational Splurgers'', persona_code = ''C'', count = 0, percent = 0\<rparr>,
         \<lparr>persona = ''Obligati'', persona_code = ''D'', count = 0, percent = 0\<rparr>,
         \<lparr>persona = ''Luxe Enthusiasts'', persona_code = ''E'', count = 0, percent = 0\<rparr>,
         \<lparr>persona = ''Dependables'', persona_code = ''F'', count = 0, percent = 0\<rparr>,
         \<lparr>persona = ''Sprezzatura'', persona_code = ''G'', count = 0, percent = 0\<rparr>,
         \<lparr>persona = ''Ascent Beautifiers'', persona_code = ''H'', count = 0, percent = 0\<rparr>,
         \<lparr>persona = ''Refined Connoisseurs'', persona_code = ''I'', count = 0, percent = 0\<rparr>,
         \<lparr>persona = ''Exotica Seekers'', persona_code = ''J'', count = 0, percent = 0\<rparr>], 160) \<and>
   spec_percent 23 160 = fl (1438/100) \<and>
   fl (1437/100) \<noteq> fl (1438/100)"
proof -
  have "fl (1437/100) \<noteq> fl (1438/100)" by (simp add: fl_num py_round_def)
  moreover have "spec_percent 23 160 = fl (1438/100)"
    by (simp add: spec_percent_def py_round_n_def fl_num py_round_def)
  moreover have "generate_taam_persona_distribution
     (replicate 23 [''q20'' \<mapsto> PyStr ''A''] @ replicate 137 [''q20'' \<mapsto> PyStr ''B'']) =
   Inr ([\<lparr>persona = ''Seamless Shoppers'', persona_code = ''A'', count = 23, percent = fl (1437/100)\<rparr>,
         \<lparr>persona = ''Value Hunters'', persona_code = ''B'', count = 137, percent = fl (8562/100)\<rparr>,
         \<lparr>persona = ''Aspirational Splurgers'', persona_code = ''C'', count = 0, percent = 0\<rparr>,
         \<lparr>persona = ''Obligati'', persona_code = ''D'', count = 0, percent = 0\<rparr>,
         \<lparr>persona = ''Luxe Enthusiasts'', persona_code = ''E'', count = 0, percent = 0\<rparr>,
         \<lparr>persona = ''Dependables'', persona_code = ''F'', count = 0, percent = 0\<rparr>,
         \<lparr>persona = ''Sprezzatura'', persona_code = ''G'', count = 0, percent = 0\<rparr>,
         \<lparr>persona = ''Ascent Beautifiers'', persona_code = ''H'', count = 0, percent = 0\<rparr>,
         \<lparr>persona = ''Refined Connoisseurs'', persona_code = ''I'', count = 0, percent = 0\<rparr>,
         \<lparr>persona = ''Exotica Seekers'', persona_code = ''J'', count = 0, percent = 0\<rparr>], 160)"
    unfolding generate_taam_persona_distribution_def count_loop_23_137 persona_codes_order
    by (simp add: persona_name_from_code_def PERSONA_PROTOTYPES_def dict_get_def
        py_round_n_def fl_num fl_zero py_round_def)
  ultimately show ?thesis by blast
qed

text \<open>
  Claim C3, amended: for every table, the persona distribution has exactly 10 entries, one
  per persona code in the order \<^verbatim>\<open>A\<close>..\<^verbatim>\<open>J\<close>; the count of an entry is the number of rows
  classified to that persona (0 when there is none, the entry still being there); the
  counts add up to the number of rows whose classification is valid (the name is not
  \<^verbatim>\<open>'Unknown'\<close>), which is \<^verbatim>\<open>total_respondents\<close>; and the percentage of an entry is
  \<^verbatim>\<open>round(count / total * 100, 2)\<close> as floating point computes it: the quotient is rounded
  to a float, its product with 100 is rounded to a float, and that float is rounded to 2
  decimals. The percentage is within \<open>0.005 + 10\<^sup>-\<^sup>1\<^sup>2\<close> of the exact
  \<open>count / total * 100\<close>, but it need not be the exact value rounded to 2 decimals. It is
  \<open>0.0\<close> for every entry when the total is 0.
\<close>

theorem persona_distribution:
  "\<exists>distribution total'.
     generate_taam_persona_distribution records = Inr (distribution, total') \<and>
     map persona_code distribution =
       [''A'', ''B'', ''C'', ''D'', ''E'', ''F'', ''G'', ''H'', ''I'', ''J''] \<and>
     map persona distribution =
       [''Seamless Shoppers'', ''Value Hunters'', ''Aspirational Splurgers'', ''Obligati'',
        ''Luxe Enthusiasts'', ''Dependables'', ''Sprezzatura'', ''Ascent Beautifiers'',
        ''Refined Connoisseurs'', ''Exotica Seekers''] \<and>
     total' = length (filter (\<lambda>r. \<exists>nm. classified_name r = Some nm \<and> nm \<noteq> ''Unknown'') records) \<and>
     sum_list (map count distribution) = total' \<and>
     map count distribution =
       map (\<lambda>e. length (filter (\<lambda>r. classified_name r = Some (persona e)) records)) distribution \<and>
     map percent distribution =
       map (\<lambda>e. if 0 < total' then py_round_n (fl (fl (real (count e) / real total') * 100)) 2
                 else 0) distribution \<and>
     (\<forall>e \<in> set distribution.
        \<bar>percent e - (if 0 < total' then real (count e) / real total' * 100 else 0)\<bar>
          \<le> 1 / 200 + 1 / 10 ^ 12)"
proof -
  from count_loop_result[of records "[]"] obtain counts where
    cl: "count_loop records [] = Inr counts"
    and get: "\<And>nm. dict_get counts nm 0 =
        (if nm \<noteq> ''Unknown'' then length (filter (\<lambda>r. classified_name r = Some nm) records) else 0)"
    and tot: "sum_list (map snd counts) =
       length (filter (\<lambda>r. \<exists>nm. classified_name r = Some nm \<and> nm \<noteq> ''Unknown'') records)"
    by (auto simp: dict_get_def)
  define total' where "total' = sum_list (map snd counts)"
  have known: "\<forall>code \<in> set PERSONA_CODES_ORDER. map_of PERSONA_PROTOTYPES code \<noteq> None"
    unfolding persona_codes_order by (simp add: PERSONA_PROTOTYPES_def)
  from distribution_loop_result[OF known, of counts total'] obtain distribution where
    dl: "distribution_loop PERSONA_CODES_ORDER counts total' = Inr distribution"
    and codes: "map persona_code distribution = PERSONA_CODES_ORDER"
    and names: "map persona distribution = persona_names"
    and cnt: "map count distribution = map (\<lambda>e. dict_get counts (persona e) 0) distribution"
    and pct: "map percent distribution =
       map (\<lambda>e. if 0 < total' then py_round_n (fl (fl (real (count e) / real total') * 100)) 2
                 else 0) distribution"
    unfolding persona_names_def by blast
  have res: "generate_taam_persona_distribution records = Inr (distribution, total')"
    using cl dl by (simp add: generate_taam_persona_distribution_def total'_def Let_def)
  have pers: "persona e \<in> set persona_names" if "e \<in> set distribution" for e
    using that names by (metis image_eqI list.set_map)
  have cnt': "map count distribution =
       map (\<lambda>e. length (filter (\<lambda>r. classified_name r = Some (persona e)) records)) distribution"
    unfolding cnt
  proof (rule map_cong[OF refl])
    fix e assume "e \<in> set distribution"
    then have "persona e \<noteq> ''Unknown''" using pers unknown_not_persona by metis
    then show "dict_get counts (persona e) 0 =
        length (filter (\<lambda>r. classified_name r = Some (persona e)) records)"
      by (simp add: get)
  qed
  have "sum_list (map count distribution) =
      (\<Sum>nm\<leftarrow>map persona distribution.
         length (filter (\<lambda>r. classified_name r = Some nm) records))"
    unfolding cnt' by (simp add: comp_def)
  also have "\<dots> = total'"
    unfolding names valid_rows_by_persona total'_def tot ..
  finally have sum: "sum_list (map count distribution) = total'" .
  have tot': "total' =
      length (filter (\<lambda>r. \<exists>nm. classified_name r = Some nm \<and> nm \<noteq> ''Unknown'') records)"
    unfolding total'_def by (rule tot)
  have err: "\<forall>e \<in> set distribution.
        \<bar>percent e - (if 0 < total' then real (count e) / real total' * 100 else 0)\<bar>
          \<le> 1 / 200 + 1 / 10 ^ 12"
  proof
    fix e assume e: "e \<in> set distribution"
    from pct e have p: "percent e =
        (if 0 < total' then py_round_n (fl (fl (real (count e) / real total') * 100)) 2 else 0)"
      by (simp add: map_eq_conv)
    from e have "count e \<in> set (map count distribution)" by simp
    then have le: "count e \<le> total'" unfolding sum[symmetric] by (intro member_le_sum_list) simp_all
    show "\<bar>percent e - (if 0 < total' then real (count e) / real total' * 100 else 0)\<bar>
          \<le> 1 / 200 + 1 / 10 ^ 12"
    proof (cases "0 < total'")
      case True
      with percent_error[OF le True] p show ?thesis by simp
    next
      case False
      with p show ?thesis by simp
    qed
  qed
  show ?thesis
    apply (rule exI[of _ distribution], rule exI[of _ total'])
    using res codes names sum cnt' pct tot' err
    unfolding persona_codes_order persona_names_eq by (intro conjI) assumption+
qed

theorem persona_distribution_witness:
  "generate_taam_persona_distribution
     [[''q20'' \<mapsto> PyStr ''A''], Map.empty, [''q20'' \<mapsto> PyStr ''Deals first (Value Hunters)''],
      [''q20'' \<mapsto> PyStr '' a  '']] =
   Inr ([\<lparr>persona = ''Seamless Shoppers'', persona_code = ''A'', count = 2, percent = fl (6667/100)\<rparr>,
         \<lparr>persona = ''Value Hunters'', persona_code = ''B'', count = 1, percent = fl (3333/100)\<rparr>,
         \<lparr>persona = ''Aspirational Splurgers'', persona_code = ''C'', count = 0, percent = 0\<rparr>,
         \<lparr>persona = ''Obligati'', persona_code = ''D'', count = 0, percent = 0\<rparr>,
         \<lparr>persona = ''Luxe Enthusiasts'', persona_code = ''E'', count = 0, percent = 0\<rparr>,
         \<lparr>persona = ''Dependables'', persona_code = ''F'', count = 0, percent = 0\<rparr>,
         \<lparr>persona = ''Sprezzatura'', persona_code = ''G'', count = 0, percent = 0\<rparr>,
         \<lparr>persona = ''Ascent Beautifiers'', persona_code = ''H'', count = 0, percent = 0\<rparr>,
         \<lparr>persona = ''Refined Connoisseurs'', persona_code = ''I'', count = 0, percent = 0\<rparr>,
         \<lparr>persona = ''Exotica Seekers'', persona_code = ''J'', count = 0, percent = 0\<rparr>], 3) \<and>
   length (filter (\<lambda>r. \<exists>nm. classified_name r = Some nm \<and> nm \<noteq> ''Unknown'')
     [[''q20'' \<mapsto> PyStr ''A''], Map.empty, [''q20'' \<mapsto> PyStr ''Deals first (Value Hunters)''],
      [''q20'' \<mapsto> PyStr '' a  '']]) = 3 \<and>
   \<bar>fl (6667/100) - 2 / 3 * 100\<bar> \<le> 1 / 200 + 1 / 10 ^ 12"
proof -
  let ?T = "[[''q20'' \<mapsto> PyStr ''A''], Map.empty,
             [''q20'' \<mapsto> PyStr ''Deals first (Value Hunters)''], [''q20'' \<mapsto> PyStr '' a  '']]"
  have counts: "count_loop ?T [] = Inr [(''Seamless Shoppers'', 2), (''Value Hunters'', 1)]"
    by (simp add: determine_persona_letter_A determine_persona_letter_a determine_persona_name_B
        determine_persona_empty is_valid_persona_def)
  have eval: "generate_taam_persona_distribution ?T =
   Inr ([\<lparr>persona = ''Seamless Shoppers'', persona_code = ''A'', count = 2, percent = fl (6667/100)\<rparr>,
         \<lparr>persona = ''Value Hunters'', persona_code = ''B'', count = 1, percent = fl (3333/100)\<rparr>,
         \<lparr>persona = ''Aspirational Splurgers'', persona_code = ''C'', count = 0, percent = 0\<rparr>,
         \<lparr>persona = ''Obligati'', persona_code = ''D'', count = 0, percent = 0\<rparr>,
         \<lparr>persona = ''Luxe Enthusiasts'', persona_code = ''E'', count = 0, percent = 0\<rparr>,
         \<lparr>persona = ''Dependables'', persona_code = ''F'', count = 0, percent = 0\<rparr>,
         \<lparr>persona = ''Sprezzatura'', persona_code = ''G'', count = 0, percent = 0\<rparr>,
         \<lparr>persona = ''Ascent Beautifiers'', persona_code = ''H'', count = 0, percent = 0\<rparr>,
         \<lparr>persona = ''Refined Connoisseurs'', persona_code = ''I'', count = 0, percent = 0\<rparr>,
         \<lparr>persona = ''Exotica Seekers'', persona_code = ''J'', count = 0, percent = 0\<rparr>], 3)"
    unfolding generate_taam_persona_distribution_def counts persona_codes_order
    by (simp add: persona_name_from_code_def PERSONA_PROTOTYPES_def dict_get_def
        py_round_n_def fl_num fl_zero py_round_def)
  from persona_distribution[of ?T] eval show ?thesis by force
qed

section \<open>The rounded cosine: an exact value and bounds\<close>

lemma py_round_strict:
  assumes "\<bar>of_int k - x\<bar> < 1 / 2"
  shows "py_round x = k"
  using py_round_unique[of k x] assms by simp

text \<open>
  The rounded square root: \<open>m\<close> is the significand when \<open>m - 1/2 < sqrt x * 2 ^ n < m + 1/2\<close>,
  which squaring decides.
\<close>

lemma py_round_sqrt:
  assumes "1 \<le> m" and "(of_int m - 1 / 2)\<^sup>2 < x * 4 ^ n" and "x * 4 ^ n < (of_int m + 1 / 2)\<^sup>2"
  shows "py_round (sqrt x * 2 ^ n) = m"
proof (rule py_round_strict)
  have "sqrt x * 2 ^ n = sqrt x * sqrt (4 ^ n)"
    by (simp add: real_sqrt_power)
  also have "\<dots> = sqrt (x * 4 ^ n)" by (simp add: real_sqrt_mult)
  finally have y: "sqrt x * 2 ^ n = sqrt (x * 4 ^ n)" .
  have "real_of_int m - 1 / 2 < sqrt (x * 4 ^ n)"
    using assms(2) by (rule real_less_rsqrt)
  moreover have "sqrt (x * 4 ^ n) < real_of_int m + 1 / 2"
    using assms(1,3) by (intro real_less_lsqrt) simp_all
  ultimately show "\<bar>real_of_int m - sqrt x * 2 ^ n\<bar> < 1 / 2"
    unfolding y by linarith
qed

lemma dot_A_A: "dot [5/2, 13/4, 13/4, 5/2, 5/2, 5] [5/2, 13/4, 13/4, 5/2, 5/2, 5] = 519/8"
  by (simp add: dot_def fl_sixteenths)

lemma norm_A: "norm [5/2, 13/4, 13/4, 5/2, 5/2, 5] = 1133570359871069 / 140737488355328"
proof -
  have lo: "2 ^ 3 \<le> \<bar>sqrt (519/8)\<bar>"
    by (simp add: real_le_rsqrt)
  have hi: "\<bar>sqrt (519/8)\<bar> < 2 * 2 ^ 3"
    by (simp add: real_less_lsqrt)
  have "py_round (sqrt (519/8) * 2 ^ 49) = 4534281439484276"
    by (rule py_round_sqrt) (simp_all add: power2_eq_square)
  then show ?thesis
    unfolding norm_def dot_A_A using fl_ge1[OF lo hi] by simp
qed

lemma cosine_A_A:
  "cosine_similarity [5/2, 13/4, 13/4, 5/2, 5/2, 5] [5/2, 13/4, 13/4, 5/2, 5/2, 5] = 1 - 1 / 2 ^ 52"
  unfolding cosine_similarity_def Let_def norm_A dot_A_A
  by (simp add: fl_num py_round_def)


text \<open>
  The rounded cosine lies within a factor \<open>1 \<plusminus> 1/1000\<close> of the bounds that the exact dot
  products give: each of the four roundings moves the value by less than \<open>2\<^sup>-\<^sup>5\<^sup>3\<close> of it.
\<close>

lemma rounded_norms:
  assumes "0 < a" "0 < b"
  shows "0 < fl (fl (sqrt a) * fl (sqrt b))"
    and "sqrt (a * b) * (1 - 1 / 2 ^ 53) ^ 3 \<le> fl (fl (sqrt a) * fl (sqrt b))"
    and "fl (fl (sqrt a) * fl (sqrt b)) \<le> sqrt (a * b) * (1 + 1 / 2 ^ 53) ^ 3"
    and "fl (sqrt a) \<noteq> 0" and "fl (sqrt b) \<noteq> 0"
proof -
  define sa where "sa = sqrt a"
  define sb where "sb = sqrt b"
  define na where "na = fl sa"
  define nb where "nb = fl sb"
  define l :: real where "l = 1 - 1 / 2 ^ 53"
  define h :: real where "h = 1 + 1 / 2 ^ 53"
  have l: "0 < l" and h: "0 < h" by (simp_all add: l_def h_def)
  have sa: "0 < sa" and sb: "0 < sb" using assms by (simp_all add: sa_def sb_def)
  have na: "sa * l \<le> na" "na \<le> sa * h" "0 < na"
    using fl_lower[of sa] fl_upper[of sa] fl_pos[of sa] sa by (simp_all add: na_def l_def h_def)
  have nb: "sb * l \<le> nb" "nb \<le> sb * h" "0 < nb"
    using fl_lower[of sb] fl_upper[of sb] fl_pos[of sb] sb by (simp_all add: nb_def l_def h_def)
  have p0: "0 < na * nb" using na(3) nb(3) by simp
  have "(sa * l) * (sb * l) \<le> na * nb"
    using na(1,3) nb(1) sa sb l by (intro mult_mono) simp_all
  then have plo: "sa * sb * l ^ 2 \<le> na * nb" by (simp add: power2_eq_square algebra_simps)
  have "na * nb \<le> (sa * h) * (sb * h)"
    using na nb sa sb h by (intro mult_mono) simp_all
  then have phi: "na * nb \<le> sa * sb * h ^ 2" by (simp add: power2_eq_square algebra_simps)
  have f: "na * nb * l \<le> fl (na * nb)" "fl (na * nb) \<le> na * nb * h" "0 < fl (na * nb)"
    using fl_lower[of "na * nb"] fl_upper[of "na * nb"] fl_pos[OF p0] p0
    by (simp_all add: l_def h_def)
  have "sa * sb * l ^ 2 * l \<le> na * nb * l"
    using plo l by (intro mult_right_mono) simp_all
  then have lo: "sa * sb * l ^ 3 \<le> fl (na * nb)"
    using f(1) by (simp add: power3_eq_cube power2_eq_square algebra_simps)
  have "na * nb * h \<le> sa * sb * h ^ 2 * h"
    using phi h by (intro mult_right_mono) simp_all
  then have hi: "fl (na * nb) \<le> sa * sb * h ^ 3"
    using f(2) by (simp add: power3_eq_cube power2_eq_square algebra_simps)
  have S: "sa * sb = sqrt (a * b)" by (simp add: sa_def sb_def real_sqrt_mult)
  show "0 < fl (fl (sqrt a) * fl (sqrt b))" using f(3) by (simp add: na_def nb_def sa_def sb_def)
  show "sqrt (a * b) * (1 - 1 / 2 ^ 53) ^ 3 \<le> fl (fl (sqrt a) * fl (sqrt b))"
    using lo unfolding S by (simp add: na_def nb_def sa_def sb_def l_def)
  show "fl (fl (sqrt a) * fl (sqrt b)) \<le> sqrt (a * b) * (1 + 1 / 2 ^ 53) ^ 3"
    using hi unfolding S by (simp add: na_def nb_def sa_def sb_def h_def)
  show "fl (sqrt a) \<noteq> 0" using na(3) by (simp add: na_def sa_def)
  show "fl (sqrt b) \<noteq> 0" using nb(3) by (simp add: nb_def sb_def)
qed

lemma cosine_upper_bound:
  assumes "dot u v = d" and "dot u u = a" and "dot v v = b"
    and d0: "0 \<le> d" and a0: "0 < a" and b0: "0 < b" and c0: "0 < c"
    and le: "d\<^sup>2 \<le> c\<^sup>2 * (a * b)"
  shows "cosine_similarity u v \<le> c * (1001 / 1000)"
proof -
  define S where "S = sqrt (a * b)"
  define P where "P = fl (fl (sqrt a) * fl (sqrt b))"
  define k :: real where "k = (1 - 1 / 2 ^ 53) ^ 3"
  have S0: "0 < S" using a0 b0 by (simp add: S_def)
  have k0: "0 < k" by (simp add: k_def)
  have P: "0 < P" "S * k \<le> P"
    using rounded_norms(1,2)[OF a0 b0] by (simp_all add: P_def S_def k_def)
  have "d \<le> sqrt (c\<^sup>2 * (a * b))" using le by (rule real_le_rsqrt)
  also have "\<dots> = c * S" using c0 by (simp add: real_sqrt_mult S_def)
  finally have dS: "d \<le> c * S" .
  have cos: "cosine_similarity u v = fl (d / P)"
    using assms(1-3) rounded_norms(4,5)[OF a0 b0]
    by (simp add: cosine_similarity_def norm_def Let_def P_def)
  have q0: "0 \<le> d / P" using d0 P(1) by simp
  have "d / P \<le> d / (S * k)"
    using d0 P S0 k0 by (intro divide_left_mono) simp_all
  also have "\<dots> \<le> (c * S) / (S * k)"
    using dS S0 k0 by (intro divide_right_mono) simp_all
  also have "\<dots> = c / k" using S0 by simp
  finally have q: "d / P \<le> c / k" .
  have "fl (d / P) \<le> d / P * (1 + 1 / 2 ^ 53)" by (rule fl_upper[OF q0])
  also have "\<dots> \<le> c / k * (1 + 1 / 2 ^ 53)"
    using q by (intro mult_right_mono) simp_all
  also have "\<dots> = c * ((1 + 1 / 2 ^ 53) / k)" by simp
  also have "\<dots> \<le> c * (1001 / 1000)"
    using c0 by (intro mult_left_mono) (simp_all add: k_def power3_eq_cube)
  finally show ?thesis unfolding cos .
qed

lemma cosine_lower_bound:
  assumes "dot u v = d" and "dot u u = a" and "dot v v = b"
    and d0: "0 \<le> d" and a0: "0 < a" and b0: "0 < b" and c0: "0 \<le> c"
    and le: "c\<^sup>2 * (a * b) \<le> d\<^sup>2"
  shows "c * (999 / 1000) \<le> cosine_similarity u v"
proof -
  define S where "S = sqrt (a * b)"
  define P where "P = fl (fl (sqrt a) * fl (sqrt b))"
  define k :: real where "k = (1 + 1 / 2 ^ 53) ^ 3"
  have S0: "0 < S" using a0 b0 by (simp add: S_def)
  have k0: "0 < k" by (simp add: k_def)
  have P: "0 < P" "P \<le> S * k"
    using rounded_norms(1,3)[OF a0 b0] by (simp_all add: P_def S_def k_def)
  have "c * S = sqrt (c\<^sup>2 * (a * b))" using c0 by (simp add: real_sqrt_mult S_def)
  also have "\<dots> \<le> sqrt (d\<^sup>2)" using le by (simp only: real_sqrt_le_iff)
  also have "\<dots> = d" using d0 by simp
  finally have dS: "c * S \<le> d" .
  have cos: "cosine_similarity u v = fl (d / P)"
    using assms(1-3) rounded_norms(4,5)[OF a0 b0]
    by (simp add: cosine_similarity_def norm_def Let_def P_def)
  have q0: "0 \<le> d / P" using d0 P(1) by simp
  have "c / k = (c * S) / (S * k)" using S0 by simp
  also have "\<dots> \<le> d / (S * k)"
    using dS S0 k0 by (intro divide_right_mono) simp_all
  also have "\<dots> \<le> d / P"
    using d0 P S0 k0 by (intro divide_left_mono) simp_all
  finally have q: "c / k \<le> d / P" .
  have "c * (999 / 1000) \<le> c * ((1 - 1 / 2 ^ 53) / k)"
    using c0 by (intro mult_left_mono) (simp_all add: k_def power3_eq_cube)
  also have "\<dots> = c / k * (1 - 1 / 2 ^ 53)" by simp
  also have "\<dots> \<le> d / P * (1 - 1 / 2 ^ 53)"
    using q by (intro mult_right_mono) simp_all
  also have "\<dots> \<le> fl (d / P)" by (rule fl_lower[OF q0])
  finally show ?thesis unfolding cos .
qed

section \<open>The nearest prototype of a prototype vector\<close>

lemma closest_loop_at:
  assumes res: "closest_loop user_vec protos ([], [], - 1) = (c, n, s)"
    and k: "k < length protos"
    and above: "- 1 < cosine_similarity user_vec (vector (snd (protos ! k)))"
    and greatest: "\<forall>i < length protos.
        cosine_similarity user_vec (vector (snd (protos ! i)))
          \<le> cosine_similarity user_vec (vector (snd (protos ! k)))"
    and earliest: "\<forall>j < k.
        cosine_similarity user_vec (vector (snd (protos ! j)))
          < cosine_similarity user_vec (vector (snd (protos ! k)))"
  shows "(c, n, s) =
    (fst (protos ! k), name (snd (protos ! k)),
     cosine_similarity user_vec (vector (snd (protos ! k))))"
proof -
  let ?sim = "\<lambda>i. cosine_similarity user_vec (vector (snd (protos ! i)))"
  note A = closest_loop_argmax[OF res]
  from A k have sk: "?sim k \<le> s" by blast
  with above have "(c, n, s) \<noteq> ([], [], - 1)" by auto
  with A obtain i where i: "i < length protos" "c = fst (protos ! i)"
    "n = name (snd (protos ! i))" "s = ?sim i" "\<forall>j < i. ?sim j < s"
    by blast
  have eq: "s = ?sim k" using sk i(1,4) greatest by (metis order_antisym)
  have "\<not> i < k" using earliest i(4) eq by auto
  moreover have "\<not> k < i" using i(5) eq by auto
  ultimately have "i = k" by simp
  with i show ?thesis by simp
qed

lemma user_vec_of_vector:
  "length vec = 6 \<Longrightarrow> map (\<lambda>axis. dict_get (zip AXES vec) axis 0) AXES = vec"
proof -
  assume "length vec = 6"
  then obtain a b c d e f where "vec = [a, b, c, d, e, f]"
    by (auto simp: length_Suc_conv eval_nat_numeral)
  then show ?thesis by (simp add: AXES_def dict_get_def)
qed

lemma less_ten_cases:
  assumes "i < (10::nat)"
  obtains "i = 0" | "i = 1" | "i = 2" | "i = 3" | "i = 4" | "i = 5" | "i = 6" | "i = 7"
    | "i = 8" | "i = 9"
proof -
  from assms have "i = 0 \<or> i = 1 \<or> i = 2 \<or> i = 3 \<or> i = 4 \<or> i = 5 \<or> i = 6 \<or> i = 7 \<or> i = 8 \<or> i = 9"
    by arith
  then show ?thesis using that by blast
qed

lemma protos_length: "length PERSONA_PROTOTYPES = 10"
  by (simp add: PERSONA_PROTOTYPES_def)

lemma prototype_vector_at:
  "vector (snd (PERSONA_PROTOTYPES ! 0)) = [5/2, 13/4, 13/4, 5/2, 5/2, 5]"
  "vector (snd (PERSONA_PROTOTYPES ! 1)) = [5, 3/2, 2, 1, 5/2, 5/2]"
  "vector (snd (PERSONA_PROTOTYPES ! 2)) = [5, 5/2, 5/2, 5, 5, 1]"
  "vector (snd (PERSONA_PROTOTYPES ! 3)) = [4, 7/2, 5/2, 5, 7/2, 5/2]"
  "vector (snd (PERSONA_PROTOTYPES ! 4)) = [5/2, 5, 5, 1, 4, 2]"
  "vector (snd (PERSONA_PROTOTYPES ! 5)) = [4, 5/2, 1, 4, 5, 5/2]"
  "vector (snd (PERSONA_PROTOTYPES ! 6)) = [5, 3, 2, 13/4, 5/2, 5/2]"
  "vector (snd (PERSONA_PROTOTYPES ! 7)) = [5, 5, 4, 2, 3/2, 13/4]"
  "vector (snd (PERSONA_PROTOTYPES ! 8)) = [5/2, 5, 5, 1, 13/4, 2]"
  "vector (snd (PERSONA_PROTOTYPES ! 9)) = [5/2, 2, 5, 1, 1, 1]"
  by (simp_all add: PERSONA_PROTOTYPES_def)

lemma others_below_A:
  assumes "i < 10" "i \<noteq> 0"
  shows "cosine_similarity [5/2, 13/4, 13/4, 5/2, 5/2, 5] (vector (snd (PERSONA_PROTOTYPES ! i)))
           \<le> 19 / 20 * (1001 / 1000)"
  using assms(1)
proof (cases rule: less_ten_cases)
  case 1 with assms(2) show ?thesis by simp
next
  case 2 show ?thesis unfolding 2 prototype_vector_at
    by (rule cosine_upper_bound[where c="19 / 20" and d="361/8" and a="519/8" and b="179/4"])
       (simp_all add: dot_def fl_sixteenths power2_eq_square)
next
  case 3 show ?thesis unfolding 3 prototype_vector_at
    by (rule cosine_upper_bound[where c="19 / 20" and d="235/4" and a="519/8" and b="177/2"])
       (simp_all add: dot_def fl_sixteenths power2_eq_square)
next
  case 4 show ?thesis unfolding 4 prototype_vector_at
    by (rule cosine_upper_bound[where c="19 / 20" and d="253/4" and a="519/8" and b="78"])
       (simp_all add: dot_def fl_sixteenths power2_eq_square)
next
  case 5 show ?thesis unfolding 5 prototype_vector_at
    by (rule cosine_upper_bound[where c="19 / 20" and d="245/4" and a="519/8" and b="309/4"])
       (simp_all add: dot_def fl_sixteenths power2_eq_square)
next
  case 6 show ?thesis unfolding 6 prototype_vector_at
    by (rule cosine_upper_bound[where c="19 / 20" and d="451/8" and a="519/8" and b="141/2"])
       (simp_all add: dot_def fl_sixteenths power2_eq_square)
next
  case 7 show ?thesis unfolding 7 prototype_vector_at
    by (rule cosine_upper_bound[where c="19 / 20" and d="445/8" and a="519/8" and b="977/16"])
       (simp_all add: dot_def fl_sixteenths power2_eq_square)
next
  case 8 show ?thesis unfolding 8 prototype_vector_at
    by (rule cosine_upper_bound[where c="19 / 20" and d="267/4" and a="519/8" and b="1325/16"])
       (simp_all add: dot_def fl_sixteenths power2_eq_square)
next
  case 9 show ?thesis unfolding 9 prototype_vector_at
    by (rule cosine_upper_bound[where c="19 / 20" and d="475/8" and a="519/8" and b="1149/16"])
       (simp_all add: dot_def fl_sixteenths power2_eq_square)
next
  case 10 show ?thesis unfolding 10 prototype_vector_at
    by (rule cosine_upper_bound[where c="19 / 20" and d="39" and a="519/8" and b="153/4"])
       (simp_all add: dot_def fl_sixteenths power2_eq_square)
qed

lemma closest_to_A:
  "find_closest_persona (zip AXES [5/2, 13/4, 13/4, 5/2, 5/2, 5]) =
     (''A'', ''Seamless Shoppers'', 1 - 1 / 2 ^ 52)"
proof -
  let ?u = "[5/2, 13/4, 13/4, 5/2, 5/2, 5] :: real list"
  let ?sim = "\<lambda>i. cosine_similarity ?u (vector (snd (PERSONA_PROTOTYPES ! i)))"
  have u: "map (\<lambda>axis. dict_get (zip AXES ?u) axis 0) AXES = ?u"
    by (rule user_vec_of_vector) simp
  have sim0: "?sim 0 = 1 - 1 / 2 ^ 52"
    unfolding prototype_vector_at by (rule cosine_A_A)
  obtain c n s where res: "closest_loop ?u PERSONA_PROTOTYPES ([], [], - 1) = (c, n, s)"
    by (metis prod_cases3)
  have greatest: "\<forall>i < length PERSONA_PROTOTYPES. ?sim i \<le> ?sim 0"
  proof (intro allI impI)
    fix i assume "i < length PERSONA_PROTOTYPES"
    then have i: "i < 10" by (simp add: protos_length)
    show "?sim i \<le> ?sim 0"
    proof (cases "i = 0")
      case True then show ?thesis by simp
    next
      case False
      from others_below_A[OF i False] show ?thesis unfolding sim0 by simp
    qed
  qed
  have "(c, n, s) = (fst (PERSONA_PROTOTYPES ! 0), name (snd (PERSONA_PROTOTYPES ! 0)), ?sim 0)"
    using res
  proof (rule closest_loop_at)
    show "0 < length PERSONA_PROTOTYPES" by (simp add: protos_length)
    show "- 1 < ?sim 0" unfolding sim0 by simp
    show "\<forall>i < length PERSONA_PROTOTYPES. ?sim i \<le> ?sim 0" by (rule greatest)
    show "\<forall>j < 0. ?sim j < ?sim 0" by simp
  qed
  then have "closest_loop ?u PERSONA_PROTOTYPES ([], [], - 1) =
      (''A'', ''Seamless Shoppers'', 1 - 1 / 2 ^ 52)"
    unfolding res[symmetric] sim0 by (simp add: PERSONA_PROTOTYPES_def)
  then show ?thesis unfolding find_closest_persona_def Let_def u .
qed

text \<open>
  Claim C6, as stated: for the axis scores \<open>[2.5, 3.25, 3.25, 2.5, 2.5, 5.0]\<close>,
  \<^verbatim>\<open>find_closest_persona\<close> returns the code \<^verbatim>\<open>A\<close>, the name \<^verbatim>\<open>Seamless Shoppers\<close> and the
  cosine similarity \<open>1.0\<close>. The code and the name are as claimed; the similarity is not
  \<open>1.0\<close>. The dot product of the vector with itself is \<open>64.875\<close>, exactly; its norm is
  the rounded square root \<open>1133570359871069 / 2\<^sup>4\<^sup>7\<close>; the product of the norm with itself
  rounds to \<open>4565172278525953 / 2\<^sup>4\<^sup>6\<close>, above \<open>64.875\<close>; and the quotient rounds to
  \<open>1 - 2\<^sup>-\<^sup>5\<^sup>2\<close>, which prints as \<^verbatim>\<open>0.9999999999999998\<close>.
\<close>

theorem find_closest_persona_similarity_counterexample:
  "find_closest_persona (zip AXES [5/2, 13/4, 13/4, 5/2, 5/2, 5]) =
     (''A'', ''Seamless Shoppers'', 4503599627370495 / 4503599627370496) \<and>
   snd (snd (find_closest_persona (zip AXES [5/2, 13/4, 13/4, 5/2, 5/2, 5]))) \<noteq> 1"
  unfolding closest_to_A by simp

text \<open>
  Claim C6, amended: for the axis scores \<open>[2.5, 3.25, 3.25, 2.5, 2.5, 5.0]\<close>,
  \<^verbatim>\<open>find_closest_persona\<close> returns the code \<^verbatim>\<open>A\<close>, the name \<^verbatim>\<open>Seamless Shoppers\<close> and the
  similarity \<open>1 - 2\<^sup>-\<^sup>5\<^sup>2\<close> (\<^verbatim>\<open>0.9999999999999998\<close>, the float next below \<open>1.0\<close> but one).
  In general the result is the prototype of greatest cosine similarity, the earliest in
  the order \<^verbatim>\<open>A\<close>..\<^verbatim>\<open>J\<close> among equals, since a candidate replaces the best only when it is
  strictly better; when no similarity exceeds the initial \<open>-1\<close>, the result is the
  initial triple of \<^verbatim>\<open>''\<close>, \<^verbatim>\<open>''\<close> and \<open>-1\<close>.
\<close>

theorem find_closest_persona_first_greatest:
  "find_closest_persona (zip AXES [5/2, 13/4, 13/4, 5/2, 5/2, 5]) =
     (''A'', ''Seamless Shoppers'', 1 - 1 / 2 ^ 52) \<and>
   (find_closest_persona scores = (c, n, s) \<longrightarrow>
      ((c, n, s) = ([], [], - 1) \<and>
       (\<forall>i < length PERSONA_PROTOTYPES.
          cosine_similarity (map (\<lambda>axis. dict_get scores axis 0) AXES)
            (vector (snd (PERSONA_PROTOTYPES ! i))) \<le> - 1)) \<or>
      (\<exists>i < length PERSONA_PROTOTYPES.
         c = fst (PERSONA_PROTOTYPES ! i) \<and> n = name (snd (PERSONA_PROTOTYPES ! i)) \<and>
         s = cosine_similarity (map (\<lambda>axis. dict_get scores axis 0) AXES)
               (vector (snd (PERSONA_PROTOTYPES ! i))) \<and>
         (\<forall>j < length PERSONA_PROTOTYPES.
            cosine_similarity (map (\<lambda>axis. dict_get scores axis 0) AXES)
              (vector (snd (PERSONA_PROTOTYPES ! j))) \<le> s) \<and>
         (\<forall>j < i.
            cosine_similarity (map (\<lambda>axis. dict_get scores axis 0) AXES)
              (vector (snd (PERSONA_PROTOTYPES ! j))) < s)))"
proof (intro conjI impI)
  show "find_closest_persona (zip AXES [5/2, 13/4, 13/4, 5/2, 5/2, 5]) =
     (''A'', ''Seamless Shoppers'', 1 - 1 / 2 ^ 52)"
    by (rule closest_to_A)
next
  let ?u = "map (\<lambda>axis. dict_get scores axis 0) AXES"
  assume "find_closest_persona scores = (c, n, s)"
  then have res: "closest_loop ?u PERSONA_PROTOTYPES ([], [], - 1) = (c, n, s)"
    by (simp add: find_closest_persona_def Let_def)
  from closest_loop_argmax[OF res]
  show "((c, n, s) = ([], [], - 1) \<and>
       (\<forall>i < length PERSONA_PROTOTYPES.
          cosine_similarity ?u (vector (snd (PERSONA_PROTOTYPES ! i))) \<le> - 1)) \<or>
      (\<exists>i < length PERSONA_PROTOTYPES.
         c = fst (PERSONA_PROTOTYPES ! i) \<and> n = name (snd (PERSONA_PROTOTYPES ! i)) \<and>
         s = cosine_similarity ?u (vector (snd (PERSONA_PROTOTYPES ! i))) \<and>
         (\<forall>j < length PERSONA_PROTOTYPES.
            cosine_similarity ?u (vector (snd (PERSONA_PROTOTYPES ! j))) \<le> s) \<and>
         (\<forall>j < i. cosine_similarity ?u (vector (snd (PERSONA_PROTOTYPES ! j))) < s))"
    by auto
qed

theorem find_closest_persona_first_greatest_witness:
  "find_closest_persona (zip AXES [5/2, 13/4, 13/4, 5/2, 5/2, 5]) =
     (''A'', ''Seamless Shoppers'', 1 - 1 / 2 ^ 52) \<and>
   cosine_similarity [5/2, 13/4, 13/4, 5/2, 5/2, 5] [5, 3/2, 2, 1, 5/2, 5/2] \<le> 1 - 1 / 2 ^ 52"
proof -
  let ?V = "zip AXES [5/2, 13/4, 13/4, 5/2, 5/2, 5 :: real]"
  let ?u = "[5/2, 13/4, 13/4, 5/2, 5/2, 5] :: real list"
  have u: "map (\<lambda>axis. dict_get ?V axis 0) AXES = ?u"
    by (rule user_vec_of_vector) simp
  note T = find_closest_persona_first_greatest[of ?V "''A''" "''Seamless Shoppers''" "1 - 1 / 2 ^ 52"]
  from T have val: "find_closest_persona ?V = (''A'', ''Seamless Shoppers'', 1 - 1 / 2 ^ 52)"
    by blast
  with T have "\<exists>i < length PERSONA_PROTOTYPES.
         (\<forall>j < length PERSONA_PROTOTYPES.
            cosine_similarity ?u (vector (snd (PERSONA_PROTOTYPES ! j))) \<le> 1 - 1 / 2 ^ 52)"
    unfolding u by auto
  then have "cosine_similarity ?u (vector (snd (PERSONA_PROTOTYPES ! 1))) \<le> 1 - 1 / 2 ^ 52"
    by (auto simp: protos_length)
  then show ?thesis using val unfolding prototype_vector_at by simp
qed

section \<open>The observed heat map\<close>

lemma others_below_half_D:
  assumes "i < 10" "i \<noteq> 3"
  shows "cosine_similarity [2, 7/4, 5/4, 5/2, 7/4, 5/4] (vector (snd (PERSONA_PROTOTYPES ! i)))
           \<le> 49 / 50 * (1001 / 1000)"
  using assms(1)
proof (cases rule: less_ten_cases)
  case 1 show ?thesis unfolding 1 prototype_vector_at
    by (rule cosine_upper_bound[where c="49 / 50" and d="253/8" and a="39/2" and b="519/8"])
       (simp_all add: dot_def fl_sixteenths power2_eq_square)
next
  case 2 show ?thesis unfolding 2 prototype_vector_at
    by (rule cosine_upper_bound[where c="49 / 50" and d="201/8" and a="39/2" and b="179/4"])
       (simp_all add: dot_def fl_sixteenths power2_eq_square)
next
  case 3 show ?thesis unfolding 3 prototype_vector_at
    by (rule cosine_upper_bound[where c="49 / 50" and d="40" and a="39/2" and b="177/2"])
       (simp_all add: dot_def fl_sixteenths power2_eq_square)
next
  case 4 with assms(2) show ?thesis by simp
next
  case 5 show ?thesis unfolding 5 prototype_vector_at
    by (rule cosine_upper_bound[where c="49 / 50" and d="32" and a="39/2" and b="309/4"])
       (simp_all add: dot_def fl_sixteenths power2_eq_square)
next
  case 6 show ?thesis unfolding 6 prototype_vector_at
    by (rule cosine_upper_bound[where c="49 / 50" and d="71/2" and a="39/2" and b="141/2"])
       (simp_all add: dot_def fl_sixteenths power2_eq_square)
next
  case 7 show ?thesis unfolding 7 prototype_vector_at
    by (rule cosine_upper_bound[where c="49 / 50" and d="267/8" and a="39/2" and b="977/16"])
       (simp_all add: dot_def fl_sixteenths power2_eq_square)
next
  case 8 show ?thesis unfolding 8 prototype_vector_at
    by (rule cosine_upper_bound[where c="49 / 50" and d="567/16" and a="39/2" and b="1325/16"])
       (simp_all add: dot_def fl_sixteenths power2_eq_square)
next
  case 9 show ?thesis unfolding 9 prototype_vector_at
    by (rule cosine_upper_bound[where c="49 / 50" and d="491/16" and a="39/2" and b="1149/16"])
       (simp_all add: dot_def fl_sixteenths power2_eq_square)
next
  case 10 show ?thesis unfolding 10 prototype_vector_at
    by (rule cosine_upper_bound[where c="49 / 50" and d="81/4" and a="39/2" and b="153/4"])
       (simp_all add: dot_def fl_sixteenths power2_eq_square)
qed


lemma half_D_near_D:
  "999 / 1000 \<le> cosine_similarity [2, 7/4, 5/4, 5/2, 7/4, 5/4] [4, 7/2, 5/2, 5, 7/2, 5/2]"
  using cosine_lower_bound[where c=1 and d=39 and a="39/2" and b=78
      and u="[2, 7/4, 5/4, 5/2, 7/4, 5/4]" and v="[4, 7/2, 5/2, 5, 7/2, 5/2]"]
  by (simp add: dot_def fl_sixteenths power2_eq_square)

lemma closest_to_half_D:
  "\<exists>s. find_closest_persona (zip AXES [2, 7/4, 5/4, 5/2, 7/4, 5/4]) = (''D'', ''Obligati'', s)"
proof -
  let ?u = "[2, 7/4, 5/4, 5/2, 7/4, 5/4] :: real list"
  let ?sim = "\<lambda>i. cosine_similarity ?u (vector (snd (PERSONA_PROTOTYPES ! i)))"
  have u: "map (\<lambda>axis. dict_get (zip AXES ?u) axis 0) AXES = ?u"
    by (rule user_vec_of_vector) simp
  have sim3: "999 / 1000 \<le> ?sim 3"
    unfolding prototype_vector_at by (rule half_D_near_D)
  have below: "?sim i < ?sim 3" if "i < 10" "i \<noteq> 3" for i
    using others_below_half_D[OF that] sim3 by simp
  obtain c n s where res: "closest_loop ?u PERSONA_PROTOTYPES ([], [], - 1) = (c, n, s)"
    by (metis prod_cases3)
  have "(c, n, s) = (fst (PERSONA_PROTOTYPES ! 3), name (snd (PERSONA_PROTOTYPES ! 3)), ?sim 3)"
    using res
  proof (rule closest_loop_at)
    show "3 < length PERSONA_PROTOTYPES" by (simp add: protos_length)
    show "- 1 < ?sim 3" using sim3 by simp
    show "\<forall>i < length PERSONA_PROTOTYPES. ?sim i \<le> ?sim 3"
      using below by (metis less_eq_real_def order_refl protos_length)
    show "\<forall>j < 3. ?sim j < ?sim 3" using below by simp
  qed
  then have "closest_loop ?u PERSONA_PROTOTYPES ([], [], - 1) = (''D'', ''Obligati'', ?sim 3)"
    unfolding res[symmetric] by (simp add: PERSONA_PROTOTYPES_def)
  then show ?thesis unfolding find_closest_persona_def Let_def u by blast
qed

lemma half_D_row_scores:
  "compute_all_axes
     [''q8'' \<mapsto> PyNum 2 ''2.0'', ''q10'' \<mapsto> PyNum (7/4) ''1.75'', ''q12'' \<mapsto> PyNum (5/4) ''1.25'',
      ''q14'' \<mapsto> PyNum (5/2) ''2.5'', ''q16'' \<mapsto> PyNum (7/4) ''1.75'', ''q18'' \<mapsto> PyNum (5/4) ''1.25'']
   = zip AXES [2, 7/4, 5/4, 5/2, 7/4, 5/4]"
  by (simp add: compute_all_axes_def AXES_def axis_eval_simps)

lemma half_D_row_persona:
  "determine_persona
     [''q8'' \<mapsto> PyNum 2 ''2.0'', ''q10'' \<mapsto> PyNum (7/4) ''1.75'', ''q12'' \<mapsto> PyNum (5/4) ''1.25'',
      ''q14'' \<mapsto> PyNum (5/2) ''2.5'', ''q16'' \<mapsto> PyNum (7/4) ''1.75'', ''q18'' \<mapsto> PyNum (5/4) ''1.25'']
   = Inr (''D'', ''Obligati'', zip AXES [2, 7/4, 5/4, 5/2, 7/4, 5/4], False)"
proof -
  from closest_to_half_D obtain s where
    "find_closest_persona (zip AXES [2, 7/4, 5/4, 5/2, 7/4, 5/4]) = (''D'', ''Obligati'', s)" ..
  then show ?thesis
    unfolding determine_persona_def half_D_row_scores
    by (simp add: anchor_code_def truthy_def AXES_def)
qed

lemma anchor_D_row_persona:
  "determine_persona [''q20'' \<mapsto> PyStr ''D''] =
     Inr (''D'', ''Obligati'', zip AXES [4, 7/2, 5/2, 5, 7/2, 5/2], True)"
proof -
  have "q20_to_code (PyStr ''D'') = Some ''D''" by code_simp
  then show ?thesis
    by (simp add: determine_persona_def anchor_code_def truthy_def vector_to_scores_def
        PERSONA_PROTOTYPES_def AXES_def)
qed


lemma group_two_rows:
  "group_loop
     [[''q8'' \<mapsto> PyNum 2 ''2.0'', ''q10'' \<mapsto> PyNum (7/4) ''1.75'', ''q12'' \<mapsto> PyNum (5/4) ''1.25'',
       ''q14'' \<mapsto> PyNum (5/2) ''2.5'', ''q16'' \<mapsto> PyNum (7/4) ''1.75'', ''q18'' \<mapsto> PyNum (5/4) ''1.25''],
      [''q20'' \<mapsto> PyStr ''D'']] []
   = Inr [(''Obligati'', [zip AXES [2, 7/4, 5/4, 5/2, 7/4, 5/4], zip AXES [4, 7/2, 5/2, 5, 7/2, 5/2]])]"
  by (simp add: half_D_row_persona anchor_D_row_persona is_valid_persona_def AXES_def)

lemma avg_two_rows:
  "avg_loop AXES [zip AXES [2, 7/4, 5/4, 5/2, 7/4, 5/4], zip AXES [4, 7/2, 5/2, 5, 7/2, 5/2]] =
     [(''Price'', 3), (''Quality'', fl (262/100)), (''Ingredients'', fl (188/100)),
      (''Social Pressure'', 15/4), (''Brand Image'', fl (262/100)),
      (''Convenience'', fl (188/100))]"
  by (simp add: AXES_def py_sum_def py_round_n_def fl_sixteenths py_round_def del: not_None_eq)

lemma heatmap_two_rows:
  "generate_taam_heatmap
     [[''q8'' \<mapsto> PyNum 2 ''2.0'', ''q10'' \<mapsto> PyNum (7/4) ''1.75'', ''q12'' \<mapsto> PyNum (5/4) ''1.25'',
       ''q14'' \<mapsto> PyNum (5/2) ''2.5'', ''q16'' \<mapsto> PyNum (7/4) ''1.75'', ''q18'' \<mapsto> PyNum (5/4) ''1.25''],
      [''q20'' \<mapsto> PyStr ''D'']] False
   = Inr [(''Obligati'',
           [(''Price'', 3), (''Quality'', fl (262/100)), (''Ingredients'', fl (188/100)),
            (''Social Pressure'', 15/4), (''Brand Image'', fl (262/100)),
            (''Convenience'', fl (188/100))])]"
  unfolding generate_taam_heatmap_def group_two_rows
  by (simp add: avg_two_rows)

lemma determine_persona_scores_keys:
  assumes "determine_persona row_data = Inr (code, nm, scores, anchored)"
  shows "set (map fst scores) \<subseteq> set AXES"
proof (cases "anchor_code row_data")
  case (Some c)
  with assms have "\<exists>vec. scores = zip AXES vec"
    by (auto simp: determine_persona_def vector_to_scores_def split: option.splits if_splits)
  then show ?thesis by (auto dest: set_zip_leftD)
next
  case None
  with assms have "scores = compute_all_axes row_data"
    by (auto simp: determine_persona_def Let_def split: if_splits prod.splits)
  then show ?thesis by (simp add: compute_all_axes_def all_axes_loop_keys)
qed

lemma contributing_scores:
  assumes "a \<in> set (contributing records nm)"
  shows "a \<noteq> [] \<and> set (map fst a) \<subseteq> set AXES"
proof -
  from assms have "\<exists>r code nm' anchored.
      determine_persona r = Inr (code, nm', a, anchored) \<and> a \<noteq> []"
    by (auto simp: contributing_def split: sum.splits if_splits) metis
  then show ?thesis using determine_persona_scores_keys by blast
qed

lemma setdefault_append_get:
  "dict_get (setdefault_append d k a) nm [] = dict_get d nm [] @ (if nm = k then [a] else [])"
  by (induction d k a rule: setdefault_append.induct) (auto simp: dict_get_def)

lemma setdefault_append_keys:
  "fst ` set (setdefault_append d k a) = insert k (fst ` set d)"
  by (induction d k a rule: setdefault_append.induct) auto

lemma setdefault_append_distinct:
  "distinct (map fst d) \<Longrightarrow> distinct (map fst (setdefault_append d k a))"
proof (induction d k a rule: setdefault_append.induct)
  case (1 k a)
  then show ?case by simp
next
  case (2 k' as d k a)
  then show ?case by (auto simp: setdefault_append_keys)
qed

lemma setdefault_append_nonempty:
  "\<forall>kv \<in> set d. snd kv \<noteq> [] \<Longrightarrow> \<forall>kv \<in> set (setdefault_append d k a). snd kv \<noteq> []"
  by (induction d k a rule: setdefault_append.induct) auto

lemma group_loop_result:
  assumes "distinct (map fst persona_axes)" "\<forall>kv \<in> set persona_axes. snd kv \<noteq> []"
  shows "\<exists>grouped. group_loop records persona_axes = Inr grouped \<and>
           distinct (map fst grouped) \<and> (\<forall>kv \<in> set grouped. snd kv \<noteq> []) \<and>
           (\<forall>nm. dict_get grouped nm [] = dict_get persona_axes nm [] @ contributing records nm)"
  using assms
proof (induction records arbitrary: persona_axes)
  case Nil
  then show ?case by (simp add: contributing_def)
next
  case (Cons r records)
  obtain code nm scores anchored where
    d: "determine_persona r = Inr (code, nm, scores, anchored)"
    and sh: "(code = [] \<and> nm = ''Unknown'') \<or>
             (\<exists>proto. (code, proto) \<in> set PERSONA_PROTOTYPES \<and> nm = name proto)"
    using determine_persona_shape[of r] by blast
  have valid: "is_valid_persona nm \<longleftrightarrow> nm \<noteq> ''Unknown''"
    using sh prototype_names_valid by (auto simp: is_valid_persona_def)
  show ?case
  proof (cases "nm \<noteq> ''Unknown'' \<and> scores \<noteq> []")
    case True
    have step: "group_loop (r # records) persona_axes =
        group_loop records (setdefault_append persona_axes nm scores)"
      using d valid True by simp
    have c: "contributing (r # records) nm' =
        (if nm' = nm then [scores] else []) @ contributing records nm'" for nm'
      using d True by (auto simp: contributing_def)
    from Cons.IH[OF setdefault_append_distinct[OF Cons.prems(1)]
        setdefault_append_nonempty[OF Cons.prems(2)], of nm scores]
    show ?thesis unfolding step c setdefault_append_get by auto
  next
    case False
    have step: "group_loop (r # records) persona_axes = group_loop records persona_axes"
      using d valid False by auto
    have c: "contributing (r # records) nm' = contributing records nm'" for nm'
      using d False by (auto simp: contributing_def)
    from Cons.IH[OF Cons.prems] show ?thesis unfolding step c .
  qed
qed

lemma avg_loop_lookup:
  "distinct axes \<Longrightarrow>
   map_of (avg_loop axes axes_list) axis =
     (if axis \<in> set axes \<and> axis_values axes_list axis \<noteq> []
      then Some (py_round_n (fl (py_sum (axis_values axes_list axis) /
                                 real (length (axis_values axes_list axis)))) 2)
      else None)"
proof (induction axes)
  case Nil
  then show ?case by simp
next
  case (Cons a axes)
  then show ?case by (auto simp: Let_def axis_values_def)
qed

lemma axis_values_outside:
  assumes "\<forall>a \<in> set axes_list. set (map fst a) \<subseteq> set AXES" "axis \<notin> set AXES"
  shows "axis_values axes_list axis = []"
proof -
  have "map_of a axis = None" if "a \<in> set axes_list" for a
    using assms that by (auto simp: map_of_eq_None_iff)
  then show ?thesis by (simp add: axis_values_def filter_empty_conv)
qed

lemma avg_loop_nonempty:
  assumes "axes_list \<noteq> []" "\<forall>a \<in> set axes_list. a \<noteq> [] \<and> set (map fst a) \<subseteq> set AXES"
  shows "avg_loop AXES axes_list \<noteq> []"
proof -
  from assms obtain a where a: "a \<in> set axes_list" "a \<noteq> []" "set (map fst a) \<subseteq> set AXES"
    by (cases axes_list) auto
  from a(2) obtain k v where kv: "(k, v) \<in> set a" by (cases a) auto
  then have k: "k \<in> set AXES" using a(3) by force
  have "k \<in> fst ` set a" using kv by force
  then have "map_of a k \<noteq> None" by (simp add: map_of_eq_None_iff)
  then have "a \<in> set (filter (\<lambda>a. map_of a k \<noteq> None) axes_list)" using a(1) by simp
  then have "filter (\<lambda>a. map_of a k \<noteq> None) axes_list \<noteq> []" by (metis empty_iff list.set(1))
  then have "axis_values axes_list k \<noteq> []" unfolding axis_values_def by simp
  then have "map_of (avg_loop AXES axes_list) k \<noteq> None"
    using k by (simp add: avg_loop_lookup[OF axes_distinct])
  then show ?thesis by auto
qed

lemma heatmap_loop_absent:
  "nm \<notin> fst ` set persona_axes \<Longrightarrow> map_of (heatmap_loop persona_axes) nm = None"
  by (induction persona_axes rule: heatmap_loop.induct) (auto simp: Let_def)

lemma heatmap_loop_lookup:
  "distinct (map fst persona_axes) \<Longrightarrow>
   map_of (heatmap_loop persona_axes) nm =
     (case map_of persona_axes nm of
        None \<Rightarrow> None
      | Some axes_list \<Rightarrow>
          if axes_list = [] \<or> avg_loop AXES axes_list = [] then None
          else Some (avg_loop AXES axes_list))"
proof (induction persona_axes rule: heatmap_loop.induct)
  case 1
  then show ?case by simp
next
  case (2 persona_name axes_list persona_axes)
  then show ?case by (auto simp: Let_def heatmap_loop_absent)
qed

lemma contributing_two_rows:
  "contributing
     [[''q8'' \<mapsto> PyNum 2 ''2.0'', ''q10'' \<mapsto> PyNum (7/4) ''1.75'', ''q12'' \<mapsto> PyNum (5/4) ''1.25'',
       ''q14'' \<mapsto> PyNum (5/2) ''2.5'', ''q16'' \<mapsto> PyNum (7/4) ''1.75'', ''q18'' \<mapsto> PyNum (5/4) ''1.25''],
      [''q20'' \<mapsto> PyStr ''D'']] ''Obligati''
   = [zip AXES [2, 7/4, 5/4, 5/2, 7/4, 5/4], zip AXES [4, 7/2, 5/2, 5, 7/2, 5/2]]"
  by (simp add: contributing_def half_D_row_persona anchor_D_row_persona AXES_def)

text \<open>
  Claim C9, as stated: in the observed heat map, the value of a persona and an axis is
  the average of that axis over the contributing rows of the persona that have it. It
  fails on a table of two rows that both classify as \<^verbatim>\<open>Obligati\<close>: a row of numeric
  answers with the scores \<open>[2.0, 1.75, 1.25, 2.5, 1.75, 1.25]\<close> (half the prototype, so
  nearest to it) and a row with the anchor \<^verbatim>\<open>D\<close>, whose scores are the prototype
  \<open>[4.0, 3.5, 2.5, 5.0, 3.5, 2.5]\<close>. The average of \<^verbatim>\<open>Quality\<close> is \<open>2.625\<close>; the heat map
  holds \<^verbatim>\<open>round(2.625, 2)\<close>, the float \<open>2.62\<close>.
\<close>

theorem heatmap_average_counterexample:
  "generate_taam_heatmap
     [[''q8'' \<mapsto> PyNum 2 ''2.0'', ''q10'' \<mapsto> PyNum (7/4) ''1.75'', ''q12'' \<mapsto> PyNum (5/4) ''1.25'',
       ''q14'' \<mapsto> PyNum (5/2) ''2.5'', ''q16'' \<mapsto> PyNum (7/4) ''1.75'', ''q18'' \<mapsto> PyNum (5/4) ''1.25''],
      [''q20'' \<mapsto> PyStr ''D'']] False
   = Inr [(''Obligati'',
           [(''Price'', 3), (''Quality'', fl (262/100)), (''Ingredients'', fl (188/100)),
       (''Social Pressure'', 15/4), (''Brand Image'', fl (262/100)),
       (''Convenience'', fl (188/100))])] \<and>
   dict_get
      [(''Price'', 3), (''Quality'', fl (262/100)), (''Ingredients'', fl (188/100)),
       (''Social Pressure'', 15/4), (''Brand Image'', fl (262/100)),
       (''Convenience'', fl (188/100))] ''Quality'' 0 = fl (262/100) \<and>
   average (axis_values (contributing
     [[''q8'' \<mapsto> PyNum 2 ''2.0'', ''q10'' \<mapsto> PyNum (7/4) ''1.75'', ''q12'' \<mapsto> PyNum (5/4) ''1.25'',
       ''q14'' \<mapsto> PyNum (5/2) ''2.5'', ''q16'' \<mapsto> PyNum (7/4) ''1.75'', ''q18'' \<mapsto> PyNum (5/4) ''1.25''],
      [''q20'' \<mapsto> PyStr ''D'']] ''Obligati'') ''Quality'') = 21/8 \<and>
   fl (262/100) \<noteq> 21/8"
proof -
  have "average (axis_values (contributing
     [[''q8'' \<mapsto> PyNum 2 ''2.0'', ''q10'' \<mapsto> PyNum (7/4) ''1.75'', ''q12'' \<mapsto> PyNum (5/4) ''1.25'',
       ''q14'' \<mapsto> PyNum (5/2) ''2.5'', ''q16'' \<mapsto> PyNum (7/4) ''1.75'', ''q18'' \<mapsto> PyNum (5/4) ''1.25''],
      [''q20'' \<mapsto> PyStr ''D'']] ''Obligati'') ''Quality'') = 21/8"
    unfolding contributing_two_rows
    by (simp add: axis_values_def average_def AXES_def del: not_None_eq)
  moreover have "fl (262/100) \<noteq> 21/8" by (simp add: fl_num py_round_def)
  ultimately show ?thesis by (simp add: heatmap_two_rows dict_get_def)
qed

text \<open>
  Claim C9, amended: in the observed heat map, only rows with both a valid persona (not
  \<^verbatim>\<open>'Unknown'\<close>) and a non-empty axis-score mapping contribute; a persona is a key of the
  heat map exactly when it has a contributing row; and for such a persona, an axis is
  present exactly when a contributing row of the persona has it, with the value
  \<^verbatim>\<open>round(sum(vals) / len(vals), 2)\<close>: the average, over only the contributing rows that
  have the axis, rounded to 2 decimals.
\<close>

theorem heatmap_observed:
  "\<exists>heatmap.
     generate_taam_heatmap records False = Inr heatmap \<and>
     (\<forall>nm. (map_of heatmap nm = None) = (contributing records nm = [])) \<and>
     (\<forall>nm avg axis.
        map_of heatmap nm = Some avg \<longrightarrow>
        map_of avg axis =
          (if axis_values (contributing records nm) axis = [] then None
           else Some (py_round_n
                        (fl (py_sum (axis_values (contributing records nm) axis) /
                             real (length (axis_values (contributing records nm) axis)))) 2)))"
proof -
  from group_loop_result[of "[]" records] obtain grouped where
    g: "group_loop records [] = Inr grouped"
    and dist: "distinct (map fst grouped)"
    and ne: "\<forall>kv \<in> set grouped. snd kv \<noteq> []"
    and get: "\<And>nm. dict_get grouped nm [] = contributing records nm"
    by (auto simp: dict_get_def)
  define heatmap where "heatmap = heatmap_loop grouped"
  have res: "generate_taam_heatmap records False = Inr heatmap"
    by (simp add: generate_taam_heatmap_def g heatmap_def)
  have look: "map_of grouped nm =
      (if contributing records nm = [] then None else Some (contributing records nm))" for nm
  proof (cases "map_of grouped nm")
    case None
    then show ?thesis using get[of nm] by (simp add: dict_get_def)
  next
    case (Some l)
    then have "(nm, l) \<in> set grouped" by (rule map_of_SomeD)
    then have "l \<noteq> []" using ne by auto
    then show ?thesis using Some get[of nm] by (simp add: dict_get_def)
  qed
  have hm: "map_of heatmap nm =
      (if contributing records nm = [] then None
       else Some (avg_loop AXES (contributing records nm)))" for nm
  proof (cases "contributing records nm = []")
    case True
    then show ?thesis unfolding heatmap_def heatmap_loop_lookup[OF dist] look by simp
  next
    case False
    have "avg_loop AXES (contributing records nm) \<noteq> []"
      using False contributing_scores by (intro avg_loop_nonempty) auto
    then show ?thesis unfolding heatmap_def heatmap_loop_lookup[OF dist] look using False by simp
  qed
  have keys: "\<forall>nm. (map_of heatmap nm = None) = (contributing records nm = [])"
    by (simp add: hm)
  have vals: "\<forall>nm avg axis.
        map_of heatmap nm = Some avg \<longrightarrow>
        map_of avg axis =
          (if axis_values (contributing records nm) axis = [] then None
           else Some (py_round_n
                        (fl (py_sum (axis_values (contributing records nm) axis) /
                             real (length (axis_values (contributing records nm) axis)))) 2))"
  proof (intro allI impI)
    fix nm avg axis
    assume "map_of heatmap nm = Some avg"
    then have avg: "avg = avg_loop AXES (contributing records nm)"
      by (auto simp: hm split: if_splits)
    have out: "axis_values (contributing records nm) axis = []" if "axis \<notin> set AXES"
      using contributing_scores that by (intro axis_values_outside) auto
    show "map_of avg axis =
          (if axis_values (contributing records nm) axis = [] then None
           else Some (py_round_n
                        (fl (py_sum (axis_values (contributing records nm) axis) /
                             real (length (axis_values (contributing records nm) axis)))) 2))"
      unfolding avg avg_loop_lookup[OF axes_distinct] using out by auto
  qed
  from res keys vals show ?thesis by blast
qed

theorem heatmap_observed_witness:
  "generate_taam_heatmap
     [[''q8'' \<mapsto> PyNum 2 ''2.0'', ''q10'' \<mapsto> PyNum (7/4) ''1.75'', ''q12'' \<mapsto> PyNum (5/4) ''1.25'',
       ''q14'' \<mapsto> PyNum (5/2) ''2.5'', ''q16'' \<mapsto> PyNum (7/4) ''1.75'', ''q18'' \<mapsto> PyNum (5/4) ''1.25''],
      [''q20'' \<mapsto> PyStr ''D'']] False
   = Inr [(''Obligati'',
           [(''Price'', 3), (''Quality'', fl (262/100)), (''Ingredients'', fl (188/100)),
       (''Social Pressure'', 15/4), (''Brand Image'', fl (262/100)),
       (''Convenience'', fl (188/100))])] \<and>
   contributing
     [[''q8'' \<mapsto> PyNum 2 ''2.0'', ''q10'' \<mapsto> PyNum (7/4) ''1.75'', ''q12'' \<mapsto> PyNum (5/4) ''1.25'',
       ''q14'' \<mapsto> PyNum (5/2) ''2.5'', ''q16'' \<mapsto> PyNum (7/4) ''1.75'', ''q18'' \<mapsto> PyNum (5/4) ''1.25''],
      [''q20'' \<mapsto> PyStr ''D'']] ''Unknown'' = [] \<and>
   axis_values (contributing
     [[''q8'' \<mapsto> PyNum 2 ''2.0'', ''q10'' \<mapsto> PyNum (7/4) ''1.75'', ''q12'' \<mapsto> PyNum (5/4) ''1.25'',
       ''q14'' \<mapsto> PyNum (5/2) ''2.5'', ''q16'' \<mapsto> PyNum (7/4) ''1.75'', ''q18'' \<mapsto> PyNum (5/4) ''1.25''],
      [''q20'' \<mapsto> PyStr ''D'']] ''Obligati'') ''Ingredients'' = [5/4, 5/2] \<and>
   map_of
      [(''Price'', 3), (''Quality'', fl (262/100)), (''Ingredients'', fl (188/100)),
       (''Social Pressure'', 15/4), (''Brand Image'', fl (262/100)),
       (''Convenience'', fl (188/100))] ''Ingredients''
     = Some (py_round_n (fl (py_sum [5/4, 5/2] / real (length [5/4, 5/2 :: real]))) 2)"
proof -
  let ?T = "[[''q8'' \<mapsto> PyNum 2 ''2.0'', ''q10'' \<mapsto> PyNum (7/4) ''1.75'', ''q12'' \<mapsto> PyNum (5/4) ''1.25'',
       ''q14'' \<mapsto> PyNum (5/2) ''2.5'', ''q16'' \<mapsto> PyNum (7/4) ''1.75'', ''q18'' \<mapsto> PyNum (5/4) ''1.25''],
      [''q20'' \<mapsto> PyStr ''D'']]"
  let ?avg = "[(''Price'', 3), (''Quality'', fl (262/100)), (''Ingredients'', fl (188/100)),
       (''Social Pressure'', 15/4), (''Brand Image'', fl (262/100)),
       (''Convenience'', fl (188/100))]"
  have c0: "contributing ?T ''Unknown'' = []"
    by (simp add: contributing_def half_D_row_persona anchor_D_row_persona)
  have av: "axis_values (contributing ?T ''Obligati'') ''Ingredients'' = [5/4, 5/2]"
    unfolding contributing_two_rows by (simp add: axis_values_def AXES_def del: not_None_eq)
  from heatmap_observed[of ?T] obtain heatmap where
    h: "generate_taam_heatmap ?T False = Inr heatmap"
    and v: "\<And>nm avg axis. map_of heatmap nm = Some avg \<Longrightarrow>
        map_of avg axis =
          (if axis_values (contributing ?T nm) axis = [] then None
           else Some (py_round_n
                        (fl (py_sum (axis_values (contributing ?T nm) axis) /
                             real (length (axis_values (contributing ?T nm) axis)))) 2))"
    by blast
  from h have heatmap: "heatmap = [(''Obligati'', ?avg)]"
    unfolding heatmap_two_rows by simp
  have "map_of heatmap ''Obligati'' = Some ?avg" unfolding heatmap by simp
  from v[OF this, of "''Ingredients''"] have
    "map_of ?avg ''Ingredients'' =
       Some (py_round_n (fl (py_sum [5/4, 5/2] / real (length [5/4, 5/2 :: real]))) 2)"
    unfolding av by simp
  with c0 av show ?thesis using heatmap_two_rows by simp
qed

end
